theory Spec2Isabelle
  imports Main "HOL-Library.Word" "HOL-Library.AList"
begin

unbundle bit_operations_syntax

section \<open>Values shared by the whole package\<close>

text \<open>
  The Go package \<^verbatim>\<open>dbman\<close> is embedded function by function. A Go \<^verbatim>\<open>byte\<close> is an
  8-bit word, a Go \<^verbatim>\<open>string\<close> is a \<^typ>\<open>string\<close>, and the conversions
  \<^verbatim>\<open>[]byte(s)\<close> and \<^verbatim>\<open>string(b)\<close> are written out. A Go \<^verbatim>\<open>error\<close> is a value of
  the datatype \<open>error\<close>, one constructor for each \<^verbatim>\<open>fmt.Errorf\<close> or \<^verbatim>\<open>errors.New\<close>
  of the package; \<open>ExternalError\<close> stands for an error made outside of the package
  (operating system, SQL driver, SSH library, prompter).
\<close>

type_synonym byte = "8 word"

datatype error =
    ExternalError string
  | ErrNotConfigured string
  | ErrEstablishTunnel error
  | ErrOpenDatabase error
  | ErrUnsupportedDriver
  | ErrConnectDatabase error
  | ErrNoActiveConnection
  | ErrInvalidTableName string
  | ErrUnexpectedNumBytes nat
  | ErrUnexpectedType
  | ErrYesOrNoInvalid
  | ErrYesOrNoIncompatible
  | InvalidByteError byte
  | ErrLength
  | PassphraseMissingError
  | ErrLocateKnownHosts error
  | ErrReadHostPublicKey error
  | ErrInvalidHostPublicKey error
  | ErrReadPrivateKey error
  | ErrParsePrivateKey error
  | ErrDecryptPrivateKey error
  | ErrOpenAuthSock error
  | ErrOpenLocalPort error
  | ErrConnectTunnel error

text \<open>
  A call either returns a value, returns an error, or panics. The only panic the
  package can raise by itself is an index out of range (index, length).
\<close>

datatype panic = IndexOutOfRange nat nat

datatype 'a result = Ok 'a | Err error | Panic panic

definition result_value :: "'a result \<Rightarrow> 'a option" where
  "result_value r = (case r of Ok x \<Rightarrow> Some x | _ \<Rightarrow> None)"

definition bytes_of_string :: "string \<Rightarrow> byte list" where
  "bytes_of_string s = map of_char s"

definition string_of_bytes :: "byte list \<Rightarrow> string" where
  "string_of_bytes bs = map (\<lambda>b. char_of (unat b)) bs"

text \<open>The slice expression \<^verbatim>\<open>xs[lo:hi]\<close>, used only with \<open>lo \<le> hi \<le> length xs\<close>.\<close>

definition slice :: "'a list \<Rightarrow> nat \<Rightarrow> nat \<Rightarrow> 'a list" where
  "slice xs lo hi = take (hi - lo) (drop lo xs)"

text \<open>\<^verbatim>\<open>strconv.Itoa\<close>.\<close>

fun digits :: "nat \<Rightarrow> string" where
  "digits n =
     (if n < 10 then [''0123456789'' ! n]
      else digits (n div 10) @ [''0123456789'' ! (n mod 10)])"

definition Itoa :: "int \<Rightarrow> string" where
  "Itoa i = (if i < 0 then ''-'' @ digits (nat (- i)) else digits (nat i))"

text \<open>
  \<^verbatim>\<open>strings.Split(s, sep)\<close> for a separator of one byte: the substrings between
  the separators, one more than there are separators, so that the empty string splits
  into one empty substring.
\<close>

fun strings_Split :: "string \<Rightarrow> char \<Rightarrow> string list" where
  "strings_Split [] sep = [[]]"
| "strings_Split (c # cs) sep =
     (if c = sep then [] # strings_Split cs sep
      else (c # hd (strings_Split cs sep)) # tl (strings_Split cs sep))"

text \<open>\<^verbatim>\<open>strings.ToUpper\<close> and \<^verbatim>\<open>strings.ReplaceAll\<close> (of one byte), on ASCII text.\<close>

definition upper_char :: "char \<Rightarrow> char" where
  "upper_char c =
     (let n = (of_char c :: nat) in if 97 \<le> n \<and> n \<le> 122 then char_of (n - 32) else c)"

definition strings_ToUpper :: "string \<Rightarrow> string" where
  "strings_ToUpper s = map upper_char s"

definition strings_ReplaceAll :: "string \<Rightarrow> char \<Rightarrow> string \<Rightarrow> string" where
  "strings_ReplaceAll s old new = concat (map (\<lambda>c. if c = old then new else [c]) s)"

section \<open>sql\_types.go: the UUID scanner\<close>

subsection \<open>encoding/hex\<close>

definition hextable :: string where
  "hextable = ''0123456789abcdef''"

text \<open>\<^verbatim>\<open>hex.Encode\<close>: two digits for each byte, \<^verbatim>\<open>hextable[v>>4]\<close> and \<^verbatim>\<open>hextable[v&0x0f]\<close>.\<close>

fun hex_Encode :: "byte list \<Rightarrow> byte list" where
  "hex_Encode [] = []"
| "hex_Encode (v # vs) =
     of_char (hextable ! unat (drop_bit 4 v)) # of_char (hextable ! unat (v AND 0x0f)) #
     hex_Encode vs"

definition fromHexChar :: "byte \<Rightarrow> byte option" where
  "fromHexChar c =
     (if 0x30 \<le> c \<and> c \<le> 0x39 then Some (c - 0x30)
      else if 0x61 \<le> c \<and> c \<le> 0x66 then Some (c - 0x61 + 10)
      else if 0x41 \<le> c \<and> c \<le> 0x46 then Some (c - 0x41 + 10)
      else None)"

text \<open>
  \<^verbatim>\<open>hex.Decode(dst, src)\<close> writes the decoded bytes to the front of \<open>dst\<close> one by one
  and stops at the first byte that is not a hexadecimal digit, or at an odd length. The
  model returns the bytes written so far together with the error.
\<close>

fun hex_Decode :: "byte list \<Rightarrow> byte list \<times> error option" where
  "hex_Decode [] = ([], None)"
| "hex_Decode [p] =
     (case fromHexChar p of
        None \<Rightarrow> ([], Some (InvalidByteError p))
      | Some a \<Rightarrow> ([], Some ErrLength))"
| "hex_Decode (p # q # rest) =
     (case fromHexChar p of
        None \<Rightarrow> ([], Some (InvalidByteError p))
      | Some a \<Rightarrow>
          (case fromHexChar q of
             None \<Rightarrow> ([], Some (InvalidByteError q))
           | Some b \<Rightarrow>
               (case hex_Decode rest of
                  (ws, err) \<Rightarrow> ((push_bit 4 a OR b) # ws, err))))"

text \<open>Writing \<open>ws\<close> into \<open>dst\<close> from index \<open>lo\<close> on, and the builtin \<^verbatim>\<open>copy(dst, src)\<close>.\<close>

definition write_at :: "byte list \<Rightarrow> nat \<Rightarrow> byte list \<Rightarrow> byte list" where
  "write_at dst lo ws = take lo dst @ ws @ drop (lo + length ws) dst"

definition copy_bytes :: "byte list \<Rightarrow> byte list \<Rightarrow> byte list" where
  "copy_bytes dst src = take (length dst) src @ drop (length src) dst"

subsection \<open>uuidParse, uuidVal.Scan, uuidVal.String\<close>

text \<open>
  \<open>uuidParse dst inp\<close> returns the array \<open>dst\<close> as the call leaves it and the error.
  The array is written in place, so a failing call leaves the groups decoded before the
  failure in it.
\<close>

definition uuidParse :: "byte list \<Rightarrow> byte list \<Rightarrow> byte list \<times> error option" where
  "uuidParse dst inp =
     (if length inp = 16 then (copy_bytes dst inp, None)
      else if length inp = 32 then
        (case hex_Decode inp of (ws, err) \<Rightarrow> (write_at dst 0 ws, err))
      else if length inp = 36 then
        (case hex_Decode (slice inp 0 8) of (w1, e1) \<Rightarrow>
           let d1 = write_at dst 0 w1 in
           if e1 \<noteq> None then (d1, e1) else
        (case hex_Decode (slice inp 9 13) of (w2, e2) \<Rightarrow>
           let d2 = write_at d1 4 w2 in
           if e2 \<noteq> None then (d2, e2) else
        (case hex_Decode (slice inp 14 18) of (w3, e3) \<Rightarrow>
           let d3 = write_at d2 6 w3 in
           if e3 \<noteq> None then (d3, e3) else
        (case hex_Decode (slice inp 19 23) of (w4, e4) \<Rightarrow>
           let d4 = write_at d3 8 w4 in
           if e4 \<noteq> None then (d4, e4) else
        (case hex_Decode (slice inp 24 36) of (w5, e5) \<Rightarrow>
           let d5 = write_at d4 10 w5 in
           if e5 \<noteq> None then (d5, e5) else (d5, None))))))
      else (dst, Some (ErrUnexpectedNumBytes (length inp))))"

text \<open>
  The values a database driver hands to a scanner (\<^verbatim>\<open>driver.Value\<close>). Floating point
  numbers are carried as their bit patterns, times as their text.
\<close>

datatype driver_value =
    DNil
  | DInt64 "64 word"
  | DFloat64 "64 word"
  | DBool bool
  | DBytes "byte list"
  | DString string
  | DTime string

record uuidVal =
  UUID :: "byte list"
  Valid :: bool

fun uuidVal_Scan :: "uuidVal \<Rightarrow> driver_value \<Rightarrow> uuidVal \<times> error option" where
  "uuidVal_Scan v (DString rv) =
     (case uuidParse (UUID v) (bytes_of_string rv) of
        (d, Some err) \<Rightarrow> (v\<lparr>UUID := d\<rparr>, Some err)
      | (d, None) \<Rightarrow> (v\<lparr>UUID := d, Valid := True\<rparr>, None))"
| "uuidVal_Scan v (DBytes rv) =
     (case uuidParse (UUID v) rv of
        (d, Some err) \<Rightarrow> (v\<lparr>UUID := d\<rparr>, Some err)
      | (d, None) \<Rightarrow> (v\<lparr>UUID := d, Valid := True\<rparr>, None))"
| "uuidVal_Scan v DNil = (v\<lparr>Valid := False\<rparr>, None)"
| "uuidVal_Scan v raw = (v, Some ErrUnexpectedType)"

definition uuidVal_String :: "uuidVal \<Rightarrow> string" where
  "uuidVal_String v =
     (if \<not> Valid v then ''NULL''
      else string_of_bytes
        (hex_Encode (slice (UUID v) 0 4) @ [of_char CHR ''-''] @
         hex_Encode (slice (UUID v) 4 6) @ [of_char CHR ''-''] @
         hex_Encode (slice (UUID v) 6 8) @ [of_char CHR ''-''] @
         hex_Encode (slice (UUID v) 8 10) @ [of_char CHR ''-''] @
         hex_Encode (slice (UUID v) 10 16)))"

subsection \<open>The canonical text of a UUID, as the specification words it\<close>

text \<open>
  Lower-case hexadecimal digits, two for each byte, in groups of 8, 4, 4, 4 and 12
  digits separated by hyphens. \<open>is_wire_encoding u inp\<close> holds when \<open>inp\<close> is one of
  the three accepted encodings of \<open>u\<close>: the raw bytes, the hexadecimal digits, or the
  hyphenated digits, the letters of the last two in either case.
\<close>

definition lower_hex :: "byte list \<Rightarrow> string" where
  "lower_hex u =
     concat (map (\<lambda>b. [''0123456789abcdef'' ! (unat b div 16),
                        ''0123456789abcdef'' ! (unat b mod 16)]) u)"

definition canonical_uuid :: "byte list \<Rightarrow> string" where
  "canonical_uuid u =
     (let h = lower_hex u
      in take 8 h @ ''-'' @ take 4 (drop 8 h) @ ''-'' @ take 4 (drop 12 h) @ ''-'' @
         take 4 (drop 16 h) @ ''-'' @ drop 20 h)"

definition ascii_lower :: "byte \<Rightarrow> byte" where
  "ascii_lower c = (if 0x41 \<le> c \<and> c \<le> 0x5A then c + 0x20 else c)"

definition is_wire_encoding :: "byte list \<Rightarrow> byte list \<Rightarrow> bool" where
  "is_wire_encoding u inp \<longleftrightarrow>
     inp = u \<or>
     map ascii_lower inp = bytes_of_string (lower_hex u) \<or>
     map ascii_lower inp = bytes_of_string (canonical_uuid u)"

section \<open>Configuration (the Config, Connection and SSHTunnel structs)\<close>

text \<open>
  The fields of \<^verbatim>\<open>SSHTunnel\<close> that share their name with a field of \<^verbatim>\<open>Connection\<close>
  carry the prefix \<open>T\<close>. \<^verbatim>\<open>AuthMethod\<close> is a string type in the source and stays one.
\<close>

record SSHTunnel =
  THost :: string
  TPort :: int
  TUser :: string
  TAuthMethod :: string
  TPassword :: string
  PrivateKeyFile :: string
  PrivateKeyPassphrase :: string
  TConnectTimeoutSec :: int
  DisableVerifyKnownHost :: bool
  HostPublicKeyFile :: string

definition PasswordAuth :: string where "PasswordAuth = ''password''"
definition PublicKeyAuth :: string where "PublicKeyAuth = ''public_key''"
definition AgentAuth :: string where "AgentAuth = ''agent''"

text \<open>The zero value, which a Go map returns for a key it does not hold.\<close>

definition SSHTunnel_zero :: SSHTunnel where
  "SSHTunnel_zero =
     \<lparr>THost = '''', TPort = 0, TUser = '''', TAuthMethod = '''', TPassword = '''',
      PrivateKeyFile = '''', PrivateKeyPassphrase = '''', TConnectTimeoutSec = 0,
      DisableVerifyKnownHost = False, HostPublicKeyFile = ''''\<rparr>"

record Connection =
  Host :: string
  Port :: int
  Database :: string
  Username :: string
  Password :: string
  Driver :: string
  DriverOpts :: "string \<rightharpoonup> string"
  Tunnel :: string
  ConnectTimeoutSec :: int
  MaxOpenConns :: int

record Config =
  Connections :: "string \<rightharpoonup> Connection"
  Tunnels :: "string \<rightharpoonup> SSHTunnel"

section \<open>Live objects, the trace of effects and the outside world\<close>

text \<open>
  A \<^verbatim>\<open>*sql.DB\<close>, a listener, an SSH client and a forwarded connection are identified
  by a number. A listener carries the address the operating system gave it; the model
  keeps the host and the port that \<^verbatim>\<open>net.SplitHostPort\<close> and \<^verbatim>\<open>strconv.Atoi\<close> read
  back from its text.
\<close>

datatype metaQuerier = dbMeta nat

record Listener =
  lid :: nat
  laddr_host :: string
  laddr_port :: int

datatype hostKeyCallback =
    FixedHostKey "byte list"
  | KnownHostsCallback string
  | InsecureIgnoreHostKey

datatype authMethod =
    AuthNil
  | AuthPassword string
  | AuthRetryableKeyboardInteractive nat
  | AuthPublicKeysFromFile "byte list"
  | AuthPublicKeysFromAgent nat

record ClientConfig =
  User :: string
  Auth :: authMethod
  HostKeyCallback :: hostKeyCallback
  Timeout :: int

text \<open>
  The \<^verbatim>\<open>Tunnel\<close> struct without its \<^verbatim>\<open>connections\<close> slice and its mutex. The slice
  is appended to by the accept loop after \<^verbatim>\<open>NewTunnel\<close> has returned, so it lives in
  the world, under the identity of the tunnel's listener.
\<close>

record Tunnel =
  config :: ClientConfig
  tunnelHost :: string
  remoteHost :: string
  localConn :: Listener
  client :: nat

text \<open>Every call that acts on the outside world leaves an event in the trace.\<close>

datatype event =
    EvPrompt string string "string list" "bool list"
  | EvDialAgent string
  | EvListen nat
  | EvSshDial string
  | EvSshClient nat
  | EvOpenDB nat string
  | EvSetMaxOpenConns nat int
  | EvSetConnMaxIdleTime nat int
  | EvPing nat
  | EvQuery nat string "string list"
  | EvCloseDB nat
  | EvCloseConn nat
  | EvCloseListener nat

record world =
  trace :: "event list"
  connections :: "nat \<Rightarrow> nat list"

definition now :: "world \<Rightarrow> nat" where
  "now w = length (trace w)"

definition emit :: "event \<Rightarrow> world \<Rightarrow> world" where
  "emit ev w = w\<lparr>trace := trace w @ [ev]\<rparr>"

text \<open>
  What a query returns: the column types (name and database type name) or the error of
  \<^verbatim>\<open>rows.ColumnTypes\<close>, the rows that \<^verbatim>\<open>rows.Next\<close> delivers, and \<^verbatim>\<open>rows.Err\<close>.
\<close>

record rows =
  columnTypes :: "error + (string \<times> string) list"
  rowData :: "driver_value list list"
  rowsErr :: "error option"

record DBStats =
  MaxOpenConnections :: int
  OpenConnections :: int
  InUse :: int
  Idle :: int
  WaitCount :: int
  WaitDuration :: int
  MaxIdleClosed :: int
  MaxIdleTimeClosed :: int
  MaxLifetimeClosed :: int

definition DBStats_zero :: DBStats where
  "DBStats_zero =
     \<lparr>MaxOpenConnections = 0, OpenConnections = 0, InUse = 0, Idle = 0, WaitCount = 0,
      WaitDuration = 0, MaxIdleClosed = 0, MaxIdleTimeClosed = 0, MaxLifetimeClosed = 0\<rparr>"

text \<open>
  The values of a result row after scanning. Each scanner the package allocates for a
  column holds one of them; the flag is \<^verbatim>\<open>Valid\<close>.
\<close>

datatype scanned =
    VNullString string bool
  | VNullBool bool bool
  | VNullInt64 "64 word" bool
  | VNullInt32 "32 word" bool
  | VNullInt16 "16 word" bool
  | VNullFloat64 "64 word" bool
  | VNullFloat32 "32 word" bool
  | VNullTime string bool
  | VUUID uuidVal
  | VArray "driver_value list"
  | VOther string driver_value
  | VNullValue

text \<open>
  The outside world: what the operating system, the SSH library and server, and the
  SQL driver and database answer. An answer that can differ from one call to the next
  takes the time of the call, the length of the trace, as its first argument.
\<close>

record env =
  Getenv :: "string \<Rightarrow> string"
  ExpandEnv :: "string \<Rightarrow> string"
  UserHomeDir :: "error + string"
  ReadFile :: "string \<Rightarrow> error + byte list"
  ParsePublicKey :: "byte list \<Rightarrow> error option"
  ParsePrivateKey :: "byte list \<Rightarrow> error option"
  ParsePrivateKeyWithPassphrase :: "byte list \<Rightarrow> byte list \<Rightarrow> error option"
  DialAgent :: "nat \<Rightarrow> string \<Rightarrow> error option"
  Listen :: "nat \<Rightarrow> error + string \<times> int"
  Handshake :: "nat \<Rightarrow> string \<Rightarrow> hostKeyCallback \<Rightarrow> error option"
  Authenticate :: "nat \<Rightarrow> string \<Rightarrow> authMethod \<Rightarrow> error option"
  NewConnector :: "string \<Rightarrow> error option"
  PingContext :: "nat \<Rightarrow> nat \<Rightarrow> int \<Rightarrow> error option"
  QueryDB :: "nat \<Rightarrow> nat \<Rightarrow> string \<Rightarrow> string list \<Rightarrow> error + rows"
  StatsDB :: "nat \<Rightarrow> nat \<Rightarrow> DBStats"
  CloseDB :: "nat \<Rightarrow> nat \<Rightarrow> error option"
  CloseConn :: "nat \<Rightarrow> nat \<Rightarrow> error option"
  CloseListener :: "nat \<Rightarrow> nat \<Rightarrow> error option"
  convertString :: "driver_value \<Rightarrow> error + string"
  stdScan :: "scanned \<Rightarrow> driver_value \<Rightarrow> scanned \<times> error option"
  float32 :: "64 word \<Rightarrow> 32 word"

text \<open>
  The secret prompter (\<^verbatim>\<open>ssh.KeyboardInteractiveChallenge\<close>): time of the call, name,
  instruction, questions and echo flags to the answers or an error.
\<close>

type_synonym prompter =
  "nat \<Rightarrow> string \<Rightarrow> string \<Rightarrow> string list \<Rightarrow> bool list \<Rightarrow> error + string list"

section \<open>The tunnel (NewTunnel, Tunnel.Close)\<close>

definition promptNumRetries :: nat where
  "promptNumRetries = 3"

text \<open>
  The loop \<^verbatim>\<open>for i := 0; i < promptNumRetries; i++\<close> of the public key callback, with
  the number of rounds left and the value of \<^verbatim>\<open>err\<close>. It returns the final \<^verbatim>\<open>err\<close>.
  \<^verbatim>\<open>answers[0]\<close> panics when the prompter answers with no error and no answer.
\<close>

fun passphraseLoop ::
  "env \<Rightarrow> prompter \<Rightarrow> SSHTunnel \<Rightarrow> byte list \<Rightarrow> nat \<Rightarrow> error option \<Rightarrow> world \<Rightarrow>
   error option result \<times> world" where
  "passphraseLoop E P tunnel buf 0 err w = (Ok err, w)"
| "passphraseLoop E P tunnel buf (Suc n) err w =
     (let w1 = emit (EvPrompt (THost tunnel) ''private key is encrypted''
                 [''private key passphrase: ''] [False]) w
      in case P (now w) (THost tunnel) ''private key is encrypted''
                [''private key passphrase: ''] [False] of
           Inl e \<Rightarrow> passphraseLoop E P tunnel buf n (Some e) w1
         | Inr answers \<Rightarrow>
             (case answers of
                [] \<Rightarrow> (Panic (IndexOutOfRange 0 0), w1)
              | a # _ \<Rightarrow>
                  (case ParsePrivateKeyWithPassphrase E buf (bytes_of_string a) of
                     None \<Rightarrow> (Ok None, w1)
                   | Some e \<Rightarrow> passphraseLoop E P tunnel buf n (Some e) w1)))"

text \<open>
  The function given to \<^verbatim>\<open>ssh.PublicKeysCallback\<close> for the public key method (the
  closure over \<open>buf\<close>, \<open>tunnel\<close> and \<open>prompter\<close>). \<open>Ok ()\<close> is a signer.
\<close>

definition privateKeySigners ::
  "env \<Rightarrow> prompter \<Rightarrow> SSHTunnel \<Rightarrow> byte list \<Rightarrow> world \<Rightarrow> unit result \<times> world" where
  "privateKeySigners E P tunnel buf w =
     (case ParsePrivateKey E buf of
        None \<Rightarrow> (Ok (), w)
      | Some err \<Rightarrow>
          if err \<noteq> PassphraseMissingError then (Err (ErrParsePrivateKey err), w)
          else if PrivateKeyPassphrase tunnel \<noteq> '''' then
            (case ParsePrivateKeyWithPassphrase E buf
                    (bytes_of_string (PrivateKeyPassphrase tunnel)) of
               None \<Rightarrow> (Ok (), w)
             | Some e \<Rightarrow> (Err (ErrDecryptPrivateKey e), w))
          else
            (case passphraseLoop E P tunnel buf promptNumRetries (Some err) w of
               (Ok None, w1) \<Rightarrow> (Ok (), w1)
             | (Ok (Some e), w1) \<Rightarrow> (Err (ErrDecryptPrivateKey e), w1)
             | (Err e, w1) \<Rightarrow> (Err e, w1)
             | (Panic p, w1) \<Rightarrow> (Panic p, w1)))"

text \<open>
  \<^verbatim>\<open>ssh.Dial\<close>: the connection and the handshake, with the check of the host key,
  are the world's; then the library asks the configured method for its credentials,
  which for the public key method is a call of the function above, in the calling
  goroutine; then the server accepts or rejects. The value is the new client, the
  transport session, whose creation is an event of its own.
\<close>

definition ssh_Dial ::
  "env \<Rightarrow> prompter \<Rightarrow> SSHTunnel \<Rightarrow> string \<Rightarrow> ClientConfig \<Rightarrow> world \<Rightarrow> nat result \<times> world" where
  "ssh_Dial E P tunnel addr cc w =
     (let w1 = emit (EvSshDial addr) w
      in case Handshake E (now w) addr (HostKeyCallback cc) of
           Some err \<Rightarrow> (Err err, w1)
         | None \<Rightarrow>
             (case (case Auth cc of
                      AuthPublicKeysFromFile buf \<Rightarrow> privateKeySigners E P tunnel buf w1
                    | _ \<Rightarrow> (Ok (), w1)) of
                (Err e, w2) \<Rightarrow> (Err e, w2)
              | (Panic p, w2) \<Rightarrow> (Panic p, w2)
              | (Ok u, w2) \<Rightarrow>
                  (case Authenticate E (now w2) addr (Auth cc) of
                     Some err \<Rightarrow> (Err err, w2)
                   | None \<Rightarrow> (Ok (now w2), emit (EvSshClient (now w2)) w2))))"

text \<open>The first switch of \<^verbatim>\<open>NewTunnel\<close>: the host key callback.\<close>

definition NewTunnel_hostKeyCB :: "env \<Rightarrow> SSHTunnel \<Rightarrow> string \<Rightarrow> error + hostKeyCallback" where
  "NewTunnel_hostKeyCB E tunnel homedir =
     (if HostPublicKeyFile tunnel \<noteq> '''' then
        (case ReadFile E (HostPublicKeyFile tunnel) of
           Inl err \<Rightarrow> Inl (ErrReadHostPublicKey err)
         | Inr buf \<Rightarrow>
             (case ParsePublicKey E buf of
                Some err \<Rightarrow> Inl (ErrInvalidHostPublicKey err)
              | None \<Rightarrow> Inr (FixedHostKey buf)))
      else if \<not> DisableVerifyKnownHost tunnel then
        Inr (KnownHostsCallback (homedir @ ''/.ssh/known_hosts''))
      else Inr InsecureIgnoreHostKey)"

text \<open>
  The second switch: the authentication method. A method name that is none of the
  three leaves \<^verbatim>\<open>auth\<close> nil. Opening the agent's socket is an effect.
\<close>

definition NewTunnel_auth ::
  "env \<Rightarrow> SSHTunnel \<Rightarrow> string \<Rightarrow> world \<Rightarrow> (error + authMethod) \<times> world" where
  "NewTunnel_auth E tunnel homedir w =
     (if TAuthMethod tunnel = PasswordAuth then
        (if TPassword tunnel \<noteq> '''' then (Inr (AuthPassword (TPassword tunnel)), w)
         else (Inr (AuthRetryableKeyboardInteractive promptNumRetries), w))
      else if TAuthMethod tunnel = PublicKeyAuth then
        (let privateKeyFile =
               strings_ReplaceAll (ExpandEnv E (PrivateKeyFile tunnel)) CHR ''~'' homedir
         in case ReadFile E privateKeyFile of
              Inl err \<Rightarrow> (Inl (ErrReadPrivateKey err), w)
            | Inr buf \<Rightarrow> (Inr (AuthPublicKeysFromFile buf), w))
      else if TAuthMethod tunnel = AgentAuth then
        (let socket = Getenv E ''SSH_AUTH_SOCK''; w1 = emit (EvDialAgent socket) w
         in case DialAgent E (now w) socket of
              Some err \<Rightarrow> (Inl (ErrOpenAuthSock err), w1)
            | None \<Rightarrow> (Inr (AuthPublicKeysFromAgent (now w)), w1))
      else (Inr AuthNil, w))"

text \<open>
  \<^verbatim>\<open>NewTunnel\<close>. The listener is opened before the SSH server is dialed, and a failed
  dial returns without closing it. The accept loop that \<^verbatim>\<open>NewTunnel\<close> starts runs
  beside the caller and is not part of the call.
\<close>

definition NewTunnel ::
  "env \<Rightarrow> prompter \<Rightarrow> SSHTunnel \<Rightarrow> string \<Rightarrow> int \<Rightarrow> world \<Rightarrow> Tunnel result \<times> world" where
  "NewTunnel E P tunnel host port w =
     (case UserHomeDir E of
        Inl err \<Rightarrow> (Err (ErrLocateKnownHosts err), w)
      | Inr homedir \<Rightarrow>
     (case NewTunnel_hostKeyCB E tunnel homedir of
        Inl err \<Rightarrow> (Err err, w)
      | Inr hostKeyCB \<Rightarrow>
     (case NewTunnel_auth E tunnel homedir w of
        (Inl err, w1) \<Rightarrow> (Err err, w1)
      | (Inr auth, w1) \<Rightarrow>
     (case Listen E (now w1) of
        Inl err \<Rightarrow> (Err (ErrOpenLocalPort err), w1)
      | Inr (h, p) \<Rightarrow>
          let l = \<lparr>lid = now w1, laddr_host = h, laddr_port = p\<rparr>;
              w2 = emit (EvListen (lid l)) w1;
              cc = \<lparr>User = TUser tunnel, Auth = auth, HostKeyCallback = hostKeyCB,
                    Timeout = TConnectTimeoutSec tunnel\<rparr>;
              th = THost tunnel @ '':'' @ Itoa (TPort tunnel);
              rh = host @ '':'' @ Itoa port
          in (case ssh_Dial E P tunnel th cc w2 of
                (Err err, w3) \<Rightarrow> (Err (ErrConnectTunnel err), w3)
              | (Panic pn, w3) \<Rightarrow> (Panic pn, w3)
              | (Ok c, w3) \<Rightarrow>
                  (Ok \<lparr>config = cc, tunnelHost = th, remoteHost = rh, localConn = l,
                       client = c\<rparr>, w3))))))"

text \<open>
  One round of the accept loop with a connection accepted: the connection is tracked.
  (The forwarding itself moves bytes and is not modelled.)
\<close>

definition Tunnel_track :: "Tunnel \<Rightarrow> nat \<Rightarrow> world \<Rightarrow> world" where
  "Tunnel_track t conn w =
     w\<lparr>connections := (connections w)
          (lid (localConn t) := connections w (lid (localConn t)) @ [conn])\<rparr>"

text \<open>\<^verbatim>\<open>Tunnel.Close\<close>: every tracked connection, then the listener, whose error it returns.\<close>

fun closeAll :: "env \<Rightarrow> nat list \<Rightarrow> world \<Rightarrow> world" where
  "closeAll E [] w = w"
| "closeAll E (cl # cls) w =
     (let ignored = CloseConn E (now w) cl in closeAll E cls (emit (EvCloseConn cl) w))"

definition Tunnel_Close :: "env \<Rightarrow> Tunnel \<Rightarrow> world \<Rightarrow> error option \<times> world" where
  "Tunnel_Close E t w =
     (let w1 = closeAll E (connections w (lid (localConn t))) w
      in (CloseListener E (now w1) (lid (localConn t)),
          emit (EvCloseListener (lid (localConn t))) w1))"

section \<open>meta.go: the metadata provider\<close>

text \<open>
  \<^verbatim>\<open>m.Query(sql, args...)\<close> on the handle of a \<^verbatim>\<open>dbMeta\<close>. A Go function that
  returns a value and an error is a pair here; the value of a failed call is the zero
  value the source returns with the error.
\<close>

definition dbMeta_Query ::
  "env \<Rightarrow> metaQuerier \<Rightarrow> string \<Rightarrow> string list \<Rightarrow> world \<Rightarrow> (error + rows) \<times> world" where
  "dbMeta_Query E m q args w =
     (case m of dbMeta db \<Rightarrow> (QueryDB E (now w) db q args, emit (EvQuery db q args) w))"

text \<open>
  \<^verbatim>\<open>rows.Scan(&name)\<close> into one string: the row must have one column, and the
  conversion is the SQL package's.
\<close>

definition scan_name :: "env \<Rightarrow> driver_value list \<Rightarrow> error + string" where
  "scan_name E row =
     (case row of
        [v] \<Rightarrow> convertString E v
      | _ \<Rightarrow> Inl (ExternalError ''sql: wrong number of destination arguments in Scan''))"

fun scan_names :: "env \<Rightarrow> driver_value list list \<Rightarrow> string list \<Rightarrow> error + string list" where
  "scan_names E [] acc = Inr acc"
| "scan_names E (row # rest) acc =
     (case scan_name E row of
        Inl err \<Rightarrow> Inl err
      | Inr name \<Rightarrow> scan_names E rest (acc @ [name]))"

text \<open>The texts of the queries, those of the source up to white space.\<close>

definition sql_ListTables :: string where
  "sql_ListTables =
     ''SELECT format('' @ [CHR 0x27] @ ''%s.%s'' @ [CHR 0x27] @
     '', table_schema, table_name) FROM information_schema.tables '' @
     ''WHERE table_schema NOT LIKE '' @ [CHR 0x27] @ ''pg_%'' @ [CHR 0x27] @
     '' AND table_schema <> '' @ [CHR 0x27] @ ''information_schema'' @ [CHR 0x27] @
     '' ORDER BY table_schema, table_name''"

definition sql_ListTablesInSchema :: string where
  "sql_ListTablesInSchema =
     ''SELECT table_name FROM information_schema.tables '' @
     ''WHERE table_schema = $1 ORDER BY table_name''"

definition sql_ListSchemas :: string where
  "sql_ListSchemas =
     ''SELECT schema_name FROM information_schema.schemata '' @
     ''WHERE schema_name NOT LIKE '' @ [CHR 0x27] @ ''pg_%'' @ [CHR 0x27] @
     '' AND schema_name <> '' @ [CHR 0x27] @ ''information_schema'' @ [CHR 0x27]"

definition sql_DescribeTable :: string where
  "sql_DescribeTable =
     ''SELECT column_name, column_default, is_nullable, data_type, udt_schema, udt_name '' @
     ''FROM information_schema.columns '' @
     ''WHERE table_schema = $1 AND table_name = $2 ORDER BY ordinal_position''"

definition dbMeta_ListTables ::
  "env \<Rightarrow> metaQuerier \<Rightarrow> world \<Rightarrow> (string list \<times> error option) \<times> world" where
  "dbMeta_ListTables E m w =
     (case dbMeta_Query E m sql_ListTables [] w of
        (Inl err, w1) \<Rightarrow> (([], Some err), w1)
      | (Inr r, w1) \<Rightarrow>
          (case scan_names E (rowData r) [] of
             Inl err \<Rightarrow> (([], Some err), w1)
           | Inr tables \<Rightarrow> ((tables, None), w1)))"

definition dbMeta_ListTablesInSchema ::
  "env \<Rightarrow> metaQuerier \<Rightarrow> string \<Rightarrow> world \<Rightarrow> (string list \<times> error option) \<times> world" where
  "dbMeta_ListTablesInSchema E m schema w =
     (case dbMeta_Query E m sql_ListTablesInSchema [schema] w of
        (Inl err, w1) \<Rightarrow> (([], Some err), w1)
      | (Inr r, w1) \<Rightarrow>
          (case scan_names E (rowData r) [] of
             Inl err \<Rightarrow> (([], Some err), w1)
           | Inr tables \<Rightarrow> ((tables, rowsErr r), w1)))"

definition dbMeta_ListSchemas ::
  "env \<Rightarrow> metaQuerier \<Rightarrow> world \<Rightarrow> (string list \<times> error option) \<times> world" where
  "dbMeta_ListSchemas E m w =
     (case dbMeta_Query E m sql_ListSchemas [] w of
        (Inl err, w1) \<Rightarrow> (([], Some err), w1)
      | (Inr r, w1) \<Rightarrow>
          (case scan_names E (rowData r) [] of
             Inl err \<Rightarrow> (([], Some err), w1)
           | Inr schemas \<Rightarrow> ((schemas, None), w1)))"

record ColumnSchema =
  Name :: string
  Type :: string
  Attrs :: "string list"

record TableSchema =
  TableName :: string
  TableColumns :: "ColumnSchema list"

text \<open>\<^verbatim>\<open>parseYesOrNo\<close> and \<^verbatim>\<open>yesOrNo.Scan\<close>.\<close>

definition parseYesOrNo :: "string \<Rightarrow> bool \<times> error option" where
  "parseYesOrNo s =
     (if s = ''YES'' \<or> s = ''yes'' then (True, None)
      else if s = ''NO'' \<or> s = ''no'' then (False, None)
      else (False, Some ErrYesOrNoInvalid))"

fun yesOrNo_Scan :: "driver_value \<Rightarrow> error + bool" where
  "yesOrNo_Scan (DString srcVal) =
     (case parseYesOrNo srcVal of (v, None) \<Rightarrow> Inr v | (v, Some err) \<Rightarrow> Inl err)"
| "yesOrNo_Scan (DBytes srcVal) =
     (case parseYesOrNo (string_of_bytes srcVal) of (v, None) \<Rightarrow> Inr v | (v, Some err) \<Rightarrow> Inl err)"
| "yesOrNo_Scan src = Inl ErrYesOrNoIncompatible"

text \<open>\<^verbatim>\<open>sql.NullString.Scan\<close>: the string and \<^verbatim>\<open>Valid\<close>.\<close>

definition NullString_Scan :: "env \<Rightarrow> driver_value \<Rightarrow> error + string \<times> bool" where
  "NullString_Scan E v =
     (case v of
        DNil \<Rightarrow> Inr ('''', False)
      | _ \<Rightarrow> (case convertString E v of Inl err \<Rightarrow> Inl err | Inr s \<Rightarrow> Inr (s, True)))"

text \<open>The body of the row loop of \<^verbatim>\<open>DescribeTable\<close>: one row to one column.\<close>

definition describe_column :: "env \<Rightarrow> driver_value list \<Rightarrow> error + ColumnSchema" where
  "describe_column E row =
     (case row of
        [c_name, c_default, c_nullable, c_type, c_udt_schema, c_udt_name] \<Rightarrow>
          (case convertString E c_name of Inl err \<Rightarrow> Inl err | Inr name \<Rightarrow>
          (case NullString_Scan E c_default of Inl err \<Rightarrow> Inl err | Inr defaultVal \<Rightarrow>
          (case yesOrNo_Scan c_nullable of Inl err \<Rightarrow> Inl err | Inr nullable \<Rightarrow>
          (case convertString E c_type of Inl err \<Rightarrow> Inl err | Inr ty \<Rightarrow>
          (case NullString_Scan E c_udt_schema of Inl err \<Rightarrow> Inl err | Inr userTypeSchema \<Rightarrow>
          (case NullString_Scan E c_udt_name of Inl err \<Rightarrow> Inl err | Inr userType \<Rightarrow>
             Inr \<lparr>Name = name,
                  Type = (if ty = ''USER-DEFINED''
                          then fst userTypeSchema @ ''.'' @ fst userType else ty),
                  Attrs = (if snd defaultVal then [''DEFAULT '' @ fst defaultVal] else []) @
                          (if nullable then [''NULL''] else [''NOT NULL''])\<rparr>))))))
      | _ \<Rightarrow> Inl (ExternalError ''sql: wrong number of destination arguments in Scan''))"

fun describe_columns ::
  "env \<Rightarrow> driver_value list list \<Rightarrow> ColumnSchema list \<Rightarrow> error + ColumnSchema list" where
  "describe_columns E [] acc = Inr acc"
| "describe_columns E (row # rest) acc =
     (case describe_column E row of
        Inl err \<Rightarrow> Inl err
      | Inr col \<Rightarrow> describe_columns E rest (acc @ [col]))"

text \<open>
  \<^verbatim>\<open>dbMeta.DescribeTable\<close>. The switch on the number of parts comes first; only the
  cases of one and of two parts reach the query.
\<close>

definition dbMeta_DescribeTable ::
  "env \<Rightarrow> metaQuerier \<Rightarrow> string \<Rightarrow> world \<Rightarrow> (TableSchema option \<times> error option) \<times> world" where
  "dbMeta_DescribeTable E m tablename w =
     (let parts = strings_Split tablename CHR ''.''
      in if length parts = 2 \<or> length parts = 1 then
           (let schema = (if length parts = 2 then parts ! 0 else ''public'');
                table = (if length parts = 2 then parts ! 1 else parts ! 0)
            in case dbMeta_Query E m sql_DescribeTable [schema, table] w of
                 (Inl err, w1) \<Rightarrow> ((None, Some err), w1)
               | (Inr r, w1) \<Rightarrow>
                   (case describe_columns E (rowData r) [] of
                      Inl err \<Rightarrow> ((None, Some err), w1)
                    | Inr cols \<Rightarrow>
                        ((Some \<lparr>TableName = table, TableColumns = cols\<rparr>, rowsErr r), w1)))
         else ((None, Some (ErrInvalidTableName tablename)), w))"

text \<open>
  The second copy of the file among the sources asks for other columns and decodes the
  row in another way; the switch on the number of parts is the same.
\<close>

definition sql_DescribeTable_alt :: string where
  "sql_DescribeTable_alt =
     ''SELECT column_name, data_type, column_default, is_nullable, udt_name '' @
     ''FROM information_schema.columns '' @
     ''WHERE table_schema = $1 AND table_name = $2 ORDER BY ordinal_position''"

definition describe_column_alt :: "env \<Rightarrow> driver_value list \<Rightarrow> error + ColumnSchema" where
  "describe_column_alt E row =
     (case row of
        [c_name, c_type, c_default, c_nullable, c_udt_name] \<Rightarrow>
          (case convertString E c_name of Inl err \<Rightarrow> Inl err | Inr name \<Rightarrow>
          (case convertString E c_type of Inl err \<Rightarrow> Inl err | Inr ty \<Rightarrow>
          (case NullString_Scan E c_default of Inl err \<Rightarrow> Inl err | Inr defaultVal \<Rightarrow>
          (case convertString E c_nullable of Inl err \<Rightarrow> Inl err | Inr nullable \<Rightarrow>
          (case convertString E c_udt_name of Inl err \<Rightarrow> Inl err | Inr userType \<Rightarrow>
             Inr \<lparr>Name = name,
                  Type = (if ty = ''USER-DEFINED'' then userType else ty),
                  Attrs = (if snd defaultVal then [''DEFAULT '' @ fst defaultVal] else []) @
                          (if nullable = ''YES'' then [''NULL''] else [''NOT NULL''])\<rparr>)))))
      | _ \<Rightarrow> Inl (ExternalError ''sql: wrong number of destination arguments in Scan''))"

fun describe_columns_alt ::
  "env \<Rightarrow> driver_value list list \<Rightarrow> ColumnSchema list \<Rightarrow> error + ColumnSchema list" where
  "describe_columns_alt E [] acc = Inr acc"
| "describe_columns_alt E (row # rest) acc =
     (case describe_column_alt E row of
        Inl err \<Rightarrow> Inl err
      | Inr col \<Rightarrow> describe_columns_alt E rest (acc @ [col]))"

definition dbMeta_DescribeTable_alt ::
  "env \<Rightarrow> metaQuerier \<Rightarrow> string \<Rightarrow> world \<Rightarrow> (TableSchema option \<times> error option) \<times> world" where
  "dbMeta_DescribeTable_alt E m tablename w =
     (let parts = strings_Split tablename CHR ''.''
      in if length parts = 2 \<or> length parts = 1 then
           (let schema = (if length parts = 2 then parts ! 0 else ''public'');
                table = (if length parts = 2 then parts ! 1 else parts ! 0)
            in case dbMeta_Query E m sql_DescribeTable_alt [schema, table] w of
                 (Inl err, w1) \<Rightarrow> ((None, Some err), w1)
               | (Inr r, w1) \<Rightarrow>
                   (case describe_columns_alt E (rowData r) [] of
                      Inl err \<Rightarrow> ((None, Some err), w1)
                    | Inr cols \<Rightarrow>
                        ((Some \<lparr>TableName = table, TableColumns = cols\<rparr>, rowsErr r), w1)))
         else ((None, Some (ErrInvalidTableName tablename)), w))"

section \<open>The registry (the DBMan struct and its methods)\<close>

record DBMan =
  current :: "metaQuerier option"
  cfg :: Config
  activeQueriers :: "(string \<times> metaQuerier) list"
  activeTunnels :: "(string \<times> Tunnel) list"
  currentName :: string

text \<open>
  The two caches are Go maps. They are association lists with \<^const>\<open>map_of\<close> for the
  lookup and \<^const>\<open>AList.update\<close> for the assignment, because \<^verbatim>\<open>Close\<close> ranges over
  them; the order of the list stands for the order in which the range visits the map.
\<close>

definition New :: "Config \<Rightarrow> DBMan" where
  "New c = \<lparr>current = None, cfg = c, activeQueriers = [], activeTunnels = [], currentName = ''''\<rparr>"

fun closeQueriers :: "env \<Rightarrow> (string \<times> metaQuerier) list \<Rightarrow> world \<Rightarrow> world" where
  "closeQueriers E [] w = w"
| "closeQueriers E ((name, dbMeta db) # qs) w =
     (let ignored = CloseDB E (now w) db in closeQueriers E qs (emit (EvCloseDB db) w))"

fun closeTunnels :: "env \<Rightarrow> (string \<times> Tunnel) list \<Rightarrow> world \<Rightarrow> world" where
  "closeTunnels E [] w = w"
| "closeTunnels E ((name, t) # ts) w =
     (case Tunnel_Close E t w of (ignored, w1) \<Rightarrow> closeTunnels E ts w1)"

definition Close :: "env \<Rightarrow> DBMan \<Rightarrow> world \<Rightarrow> error option \<times> world" where
  "Close E d w = (None, closeTunnels E (activeTunnels d) (closeQueriers E (activeQueriers d) w))"

definition CurrentName :: "DBMan \<Rightarrow> string" where
  "CurrentName d = currentName d"

text \<open>
  \<^verbatim>\<open>SwitchConnection\<close>, in the four blocks of its body. \<open>conn\<close> is the local copy that
  the lookup in the configuration makes. First block: the tunnel, and the host and port
  of the copy.
\<close>

definition SwitchConnection_tunnel ::
  "env \<Rightarrow> prompter \<Rightarrow> DBMan \<Rightarrow> Connection \<Rightarrow> world \<Rightarrow> Connection result \<times> DBMan \<times> world" where
  "SwitchConnection_tunnel E P d conn w =
     (if Tunnel conn \<noteq> '''' then
        (case map_of (activeTunnels d) (Tunnel conn) of
           Some tunnel \<Rightarrow>
             (Ok (conn\<lparr>Host := laddr_host (localConn tunnel),
                       Port := laddr_port (localConn tunnel)\<rparr>), d, w)
         | None \<Rightarrow>
             (let tunnelCfg = (case Tunnels (cfg d) (Tunnel conn) of
                                 Some c \<Rightarrow> c | None \<Rightarrow> SSHTunnel_zero)
              in case NewTunnel E P tunnelCfg (Host conn) (Port conn) w of
                   (Err err, w1) \<Rightarrow> (Err (ErrEstablishTunnel err), d, w1)
                 | (Panic pn, w1) \<Rightarrow> (Panic pn, d, w1)
                 | (Ok tunnel, w1) \<Rightarrow>
                     (Ok (conn\<lparr>Host := laddr_host (localConn tunnel),
                               Port := laddr_port (localConn tunnel)\<rparr>),
                      d\<lparr>activeTunnels := AList.update (Tunnel conn) tunnel (activeTunnels d)\<rparr>,
                      w1)))
      else (Ok conn, d, w))"

text \<open>Second block: the password of the copy.\<close>

definition SwitchConnection_password ::
  "env \<Rightarrow> prompter \<Rightarrow> Connection \<Rightarrow> world \<Rightarrow> Connection result \<times> world" where
  "SwitchConnection_password E P conn w =
     (if Password conn = '''' then
        (let pgpassword = Getenv E ''PGPASSWORD''
         in if pgpassword \<noteq> '''' then (Ok (conn\<lparr>Password := pgpassword\<rparr>), w)
            else
              (let w1 = emit (EvPrompt '''' '''' [''database password: ''] [False]) w
               in case P (now w) '''' '''' [''database password: ''] [False] of
                    Inl err \<Rightarrow> (Err err, w1)
                  | Inr answers \<Rightarrow>
                      (case answers of
                         [] \<Rightarrow> (Panic (IndexOutOfRange 0 0), w1)
                       | a # _ \<Rightarrow> (Ok (conn\<lparr>Password := a\<rparr>), w1))))
      else (Ok conn, w))"

definition postgresOpen :: "env \<Rightarrow> Connection \<Rightarrow> world \<Rightarrow> (error + nat) \<times> world" where
  "postgresOpen E conn w =
     (let sslmode = (case DriverOpts conn ''sslmode'' of Some m \<Rightarrow> m | None \<Rightarrow> ''require'');
          dsn = ''host='' @ Host conn @ '' port='' @ Itoa (Port conn) @
                '' dbname='' @ Database conn @ '' user='' @ Username conn @
                '' password='' @ Password conn @ '' sslmode='' @ sslmode
      in case NewConnector E dsn of
           Some err \<Rightarrow> (Inl err, w)
         | None \<Rightarrow> (Inr (now w), emit (EvOpenDB (now w) dsn) w))"

text \<open>Third block: the switch on the driver.\<close>

definition SwitchConnection_driver ::
  "env \<Rightarrow> Connection \<Rightarrow> world \<Rightarrow> metaQuerier result \<times> world" where
  "SwitchConnection_driver E conn w =
     (if Driver conn = ''postgres'' then
        (case postgresOpen E conn w of
           (Inl err, w1) \<Rightarrow> (Err (ErrOpenDatabase err), w1)
         | (Inr db, w1) \<Rightarrow>
             (Ok (dbMeta db),
              emit (EvSetConnMaxIdleTime db 3600)
                (emit (EvSetMaxOpenConns db (MaxOpenConns conn)) w1)))
      else (Err ErrUnsupportedDriver, w))"

text \<open>
  The whole method. The fourth block, the ping and the registration, is written in
  place. The context of the ping carries the timeout when it is not zero.
\<close>

definition SwitchConnection ::
  "env \<Rightarrow> DBMan \<Rightarrow> string \<Rightarrow> prompter \<Rightarrow> world \<Rightarrow> unit result \<times> DBMan \<times> world" where
  "SwitchConnection E d connName P w =
     (case Connections (cfg d) connName of
        None \<Rightarrow> (Err (ErrNotConfigured connName), d, w)
      | Some conn \<Rightarrow>
          (case map_of (activeQueriers d) connName of
             Some querier \<Rightarrow> (Ok (), d\<lparr>current := Some querier, currentName := connName\<rparr>, w)
           | None \<Rightarrow>
               (case SwitchConnection_tunnel E P d conn w of
                  (Err err, d1, w1) \<Rightarrow> (Err err, d1, w1)
                | (Panic pn, d1, w1) \<Rightarrow> (Panic pn, d1, w1)
                | (Ok conn1, d1, w1) \<Rightarrow>
               (case SwitchConnection_password E P conn1 w1 of
                  (Err err, w2) \<Rightarrow> (Err err, d1, w2)
                | (Panic pn, w2) \<Rightarrow> (Panic pn, d1, w2)
                | (Ok conn2, w2) \<Rightarrow>
               (case SwitchConnection_driver E conn2 w2 of
                  (Err err, w3) \<Rightarrow> (Err err, d1, w3)
                | (Panic pn, w3) \<Rightarrow> (Panic pn, d1, w3)
                | (Ok querier, w3) \<Rightarrow>
                    (case querier of dbMeta db \<Rightarrow>
                       (case PingContext E (now w3) db (ConnectTimeoutSec conn2) of
                          Some err \<Rightarrow> (Err (ErrConnectDatabase err), d1, emit (EvPing db) w3)
                        | None \<Rightarrow>
                            (Ok (),
                             d1\<lparr>activeQueriers :=
                                  AList.update connName querier (activeQueriers d1),
                                current := Some querier, currentName := connName\<rparr>,
                             emit (EvPing db) w3))))))))"

text \<open>The methods that go to the current connection.\<close>

definition ListTables ::
  "env \<Rightarrow> DBMan \<Rightarrow> string \<Rightarrow> world \<Rightarrow> (string list \<times> error option) \<times> world" where
  "ListTables E d schema w =
     (case current d of
        None \<Rightarrow> (([], Some ErrNoActiveConnection), w)
      | Some m \<Rightarrow>
          if schema \<noteq> '''' then dbMeta_ListTablesInSchema E m schema w
          else dbMeta_ListTables E m w)"

definition ListSchemas ::
  "env \<Rightarrow> DBMan \<Rightarrow> world \<Rightarrow> (string list \<times> error option) \<times> world" where
  "ListSchemas E d w =
     (case current d of
        None \<Rightarrow> (([], Some ErrNoActiveConnection), w)
      | Some m \<Rightarrow> dbMeta_ListSchemas E m w)"

definition DescribeTable ::
  "env \<Rightarrow> DBMan \<Rightarrow> string \<Rightarrow> world \<Rightarrow> (TableSchema option \<times> error option) \<times> world" where
  "DescribeTable E d name w =
     (case current d of
        None \<Rightarrow> ((None, Some ErrNoActiveConnection), w)
      | Some m \<Rightarrow> dbMeta_DescribeTable E m name w)"

text \<open>\<^verbatim>\<open>Stats\<close> has no error among its results.\<close>

definition Stats :: "env \<Rightarrow> DBMan \<Rightarrow> world \<Rightarrow> DBStats" where
  "Stats E d w =
     (case current d of
        None \<Rightarrow> DBStats_zero
      | Some m \<Rightarrow> (case m of dbMeta db \<Rightarrow> StatsDB E (now w) db))"

section \<open>Query and the scanners of a result row\<close>

record QueryResult =
  Columns :: "string list"
  Rows :: "scanned list list"

text \<open>\<^verbatim>\<open>nullInt16.Scan\<close> and \<^verbatim>\<open>nullFloat32.Scan\<close>, on the number and \<^verbatim>\<open>Valid\<close>.\<close>

fun nullInt16_Scan :: "16 word \<times> bool \<Rightarrow> driver_value \<Rightarrow> (16 word \<times> bool) \<times> error option" where
  "nullInt16_Scan i DNil = ((0, False), None)"
| "nullInt16_Scan i (DInt64 rv) = ((ucast rv, True), None)"
| "nullInt16_Scan i v = (i, Some ErrUnexpectedType)"

fun nullFloat32_Scan ::
  "env \<Rightarrow> 32 word \<times> bool \<Rightarrow> driver_value \<Rightarrow> (32 word \<times> bool) \<times> error option" where
  "nullFloat32_Scan E f DNil = ((0, False), None)"
| "nullFloat32_Scan E f (DFloat64 rv) = ((float32 E rv, True), None)"
| "nullFloat32_Scan E f v = (f, Some ErrUnexpectedType)"

text \<open>
  The switch of \<^verbatim>\<open>Query\<close> on the upper-cased database type name of a column: the
  scanner allocated for the column, at its zero value.
\<close>

definition new_scanner :: "string \<times> string \<Rightarrow> scanned" where
  "new_scanner col =
     (let t = strings_ToUpper (snd col)
      in if t \<in> set [''CHARACTER'', ''CHAR'', ''CHARACTER VARYING'', ''VARCHAR'', ''NVARCHAR'',
                      ''TEXT''] then VNullString '''' False
         else if t \<in> set [''BOOL'', ''BOOLEAN''] then VNullBool False False
         else if t \<in> set [''BIGINT'', ''INT8'', ''BIGSERIAL'', ''SERIAL8'', ''INTERVAL'']
           then VNullInt64 0 False
         else if t \<in> set [''INTEGER'', ''INT'', ''INT4'', ''SERIAL'', ''SERIAL4'']
           then VNullInt32 0 False
         else if t \<in> set [''SMALLINT'', ''INT2'', ''SMALLSERIAL'', ''SERIAL2'']
           then VNullInt16 0 False
         else if t \<in> set [''DOUBLE'', ''FLOAT8'', ''NUMERIC'', ''DECIMAL'']
           then VNullFloat64 0 False
         else if t \<in> set [''REAL'', ''FLOAT4''] then VNullFloat32 0 False
         else if t \<in> set [''TIMESTAMP'', ''TIMESTAMPTZ'', ''TIME'', ''TIMETZ'', ''DATE'']
           then VNullTime '''' False
         else if t = ''UUID'' then VUUID \<lparr>UUID = replicate 16 0, Valid = False\<rparr>
         else if t = ''ARRAY'' then VArray []
         else VOther t DNil)"

text \<open>
  \<^verbatim>\<open>rows.Scan(scanners...)\<close>: the number of scanners must be the number of columns;
  then each value goes to its scanner, through the scanner's own \<^verbatim>\<open>Scan\<close> where the
  package defines it and through the SQL package otherwise, up to the first error.
\<close>

fun scan_value :: "env \<Rightarrow> scanned \<Rightarrow> driver_value \<Rightarrow> scanned \<times> error option" where
  "scan_value E (VNullInt16 i valid) v =
     (case nullInt16_Scan (i, valid) v of ((i', valid'), err) \<Rightarrow> (VNullInt16 i' valid', err))"
| "scan_value E (VNullFloat32 f valid) v =
     (case nullFloat32_Scan E (f, valid) v of ((f', valid'), err) \<Rightarrow> (VNullFloat32 f' valid', err))"
| "scan_value E (VUUID u) v =
     (case uuidVal_Scan u v of (u', err) \<Rightarrow> (VUUID u', err))"
| "scan_value E s v = stdScan E s v"

fun scan_values :: "env \<Rightarrow> scanned list \<Rightarrow> driver_value list \<Rightarrow> scanned list \<times> error option" where
  "scan_values E (s # ss) (v # vs) =
     (case scan_value E s v of
        (s', Some err) \<Rightarrow> (s' # ss, Some err)
      | (s', None) \<Rightarrow> (case scan_values E ss vs of (ss', err) \<Rightarrow> (s' # ss', err)))"
| "scan_values E ss vs = (ss, None)"

definition rows_Scan :: "env \<Rightarrow> scanned list \<Rightarrow> driver_value list \<Rightarrow> scanned list \<times> error option" where
  "rows_Scan E scanners row =
     (if length scanners \<noteq> length row
      then (scanners, Some (ExternalError ''sql: wrong number of destination arguments in Scan''))
      else scan_values E scanners row)"

text \<open>
  The loop \<^verbatim>\<open>for rows.Next()\<close> of \<^verbatim>\<open>Query\<close>. The scanners are allocated once and
  every row copies their values. (No scanner is nil, so the branch that stores a
  \<^verbatim>\<open>nullValue\<close> is never taken.)
\<close>

fun query_rows ::
  "env \<Rightarrow> scanned list \<Rightarrow> driver_value list list \<Rightarrow> scanned list list \<Rightarrow>
   error + scanned list list" where
  "query_rows E scanners [] acc = Inr acc"
| "query_rows E scanners (row # rest) acc =
     (case rows_Scan E scanners row of
        (scanners', Some err) \<Rightarrow> Inl err
      | (scanners', None) \<Rightarrow> query_rows E scanners' rest (acc @ [scanners']))"

text \<open>\<^verbatim>\<open>Query\<close>: the result pointer, nil being \<open>None\<close>, and the error.\<close>

definition Query ::
  "env \<Rightarrow> DBMan \<Rightarrow> string \<Rightarrow> world \<Rightarrow> (QueryResult option \<times> error option) \<times> world" where
  "Query E d script w =
     (case current d of
        None \<Rightarrow> ((None, Some ErrNoActiveConnection), w)
      | Some m \<Rightarrow>
          (case dbMeta_Query E m script [] w of
             (Inl err, w1) \<Rightarrow> ((None, Some err), w1)
           | (Inr r, w1) \<Rightarrow>
               (case columnTypes r of
                  Inl err \<Rightarrow> ((None, Some err), w1)
                | Inr columns \<Rightarrow>
                    if length columns = 0 then ((None, None), w1)
                    else
                      (case query_rows E (map new_scanner columns) (rowData r) [] of
                         Inl err \<Rightarrow> ((None, Some err), w1)
                       | Inr data \<Rightarrow>
                           ((Some \<lparr>Columns = map fst columns, Rows = data\<rparr>, rowsErr r),
                            w1)))))"

section \<open>Sequences of calls, and counting events\<close>

text \<open>
  A front end calls \<^verbatim>\<open>SwitchConnection\<close> and \<^verbatim>\<open>Close\<close> one after the other on the
  same registry. \<open>run\<close> makes the calls of a list in order and drops their results; a
  panic ends the run.
\<close>

datatype call = CallSwitch string | CallClose

fun run :: "env \<Rightarrow> prompter \<Rightarrow> call list \<Rightarrow> DBMan \<times> world \<Rightarrow> DBMan \<times> world" where
  "run E P [] s = s"
| "run E P (CallSwitch name # cs) (d, w) =
     (case SwitchConnection E d name P w of
        (Panic pn, d1, w1) \<Rightarrow> (d1, w1)
      | (r, d1, w1) \<Rightarrow> run E P cs (d1, w1))"
| "run E P (CallClose # cs) (d, w) =
     (case Close E d w of (r, w1) \<Rightarrow> run E P cs (d, w1))"

definition count_events :: "(event \<Rightarrow> bool) \<Rightarrow> world \<Rightarrow> nat" where
  "count_events p w = length (filter p (trace w))"

fun is_Listen :: "event \<Rightarrow> bool" where
  "is_Listen (EvListen l) = True"
| "is_Listen ev = False"

fun is_SshDial :: "event \<Rightarrow> bool" where
  "is_SshDial (EvSshDial a) = True"
| "is_SshDial ev = False"

fun is_SshClient :: "event \<Rightarrow> bool" where
  "is_SshClient (EvSshClient c) = True"
| "is_SshClient ev = False"

text \<open>The events of establishing a tunnel.\<close>

fun tunnel_event :: "event \<Rightarrow> bool" where
  "tunnel_event (EvDialAgent s) = True"
| "tunnel_event (EvListen l) = True"
| "tunnel_event (EvSshDial a) = True"
| "tunnel_event (EvSshClient c) = True"
| "tunnel_event ev = False"

fun is_OpenDB :: "event \<Rightarrow> bool" where
  "is_OpenDB (EvOpenDB db dsn) = True"
| "is_OpenDB ev = False"

fun is_Ping :: "event \<Rightarrow> bool" where
  "is_Ping (EvPing db) = True"
| "is_Ping ev = False"

text \<open>
  \<open>on_tunnel c tn call\<close>: the call is a \<^verbatim>\<open>Close\<close>, or a switch to a name that the
  configuration \<open>c\<close> does not hold or holds with the tunnel \<open>tn\<close> or with no tunnel.
\<close>

fun on_tunnel :: "Config \<Rightarrow> string \<Rightarrow> call \<Rightarrow> bool" where
  "on_tunnel c tn CallClose = True"
| "on_tunnel c tn (CallSwitch name) =
     (case Connections c name of
        None \<Rightarrow> True
      | Some conn \<Rightarrow> Tunnel conn = tn \<or> Tunnel conn = '''')"

definition handle :: "metaQuerier \<Rightarrow> nat" where
  "handle m = (case m of dbMeta db \<Rightarrow> db)"

text \<open>
  \<open>closed_in_order evs l cs\<close>: in the events \<open>evs\<close> the listener \<open>l\<close> is closed, and
  each of the connections \<open>cs\<close> is closed at an earlier place.
\<close>

definition closed_in_order :: "event list \<Rightarrow> nat \<Rightarrow> nat list \<Rightarrow> bool" where
  "closed_in_order evs l cs \<longleftrightarrow>
     (\<exists>i < length evs. evs ! i = EvCloseListener l \<and>
        (\<forall>c \<in> set cs. EvCloseConn c \<in> set (take i evs)))"

text \<open>The events that \<^verbatim>\<open>Tunnel.Close\<close> adds to the trace of the world \<open>w\<close>.\<close>

definition tunnel_close_events :: "world \<Rightarrow> Tunnel \<Rightarrow> event list" where
  "tunnel_close_events w t =
     map EvCloseConn (connections w (lid (localConn t))) @ [EvCloseListener (lid (localConn t))]"

section \<open>A configuration and some worlds to run the definitions on\<close>

definition conn_direct :: Connection where
  "conn_direct =
     \<lparr>Host = ''db.example'', Port = 5432, Database = ''app'', Username = ''ann'',
      Password = ''s3cret'', Driver = ''postgres'', DriverOpts = Map.empty, Tunnel = '''',
      ConnectTimeoutSec = 0, MaxOpenConns = 4\<rparr>"

definition conn_ask :: Connection where
  "conn_ask = conn_direct\<lparr>Password := ''''\<rparr>"

definition conn_via :: Connection where
  "conn_via = conn_direct\<lparr>Password := '''', Tunnel := ''bastion''\<rparr>"

definition conn_via2 :: Connection where
  "conn_via2 = conn_direct\<lparr>Host := ''db2.example'', Tunnel := ''bastion''\<rparr>"

definition tunnel_bastion :: SSHTunnel where
  "tunnel_bastion =
     \<lparr>THost = ''bastion.example'', TPort = 22, TUser = ''ann'', TAuthMethod = ''password'',
      TPassword = ''pw'', PrivateKeyFile = '''', PrivateKeyPassphrase = '''',
      TConnectTimeoutSec = 0, DisableVerifyKnownHost = True, HostPublicKeyFile = ''''\<rparr>"

definition tunnel_key :: SSHTunnel where
  "tunnel_key = tunnel_bastion\<lparr>TAuthMethod := ''public_key'', PrivateKeyFile := ''~/.ssh/id''\<rparr>"

definition cfg_ex :: Config where
  "cfg_ex =
     \<lparr>Connections = [''direct'' \<mapsto> conn_direct, ''ask'' \<mapsto> conn_ask,
                      ''via'' \<mapsto> conn_via, ''via2'' \<mapsto> conn_via2],
      Tunnels = [''bastion'' \<mapsto> tunnel_bastion]\<rparr>"

definition cfg_key :: Config where
  "cfg_key = cfg_ex\<lparr>Tunnels := [''bastion'' \<mapsto> tunnel_key]\<rparr>"

definition rows_none :: rows where
  "rows_none = \<lparr>columnTypes = Inr [], rowData = [], rowsErr = None\<rparr>"

definition rows_empty :: rows where
  "rows_empty = \<lparr>columnTypes = Inr [(''id'', ''int4''), (''name'', ''text'')], rowData = [],
                 rowsErr = None\<rparr>"

text \<open>
  A world in which every call succeeds, except that every \<^verbatim>\<open>Close\<close> returns an error
  and private keys are encrypted. Statements that begin with \<open>CREATE\<close> have no columns.
\<close>

definition env_ok :: env where
  "env_ok =
     \<lparr>Getenv = (\<lambda>k. ''''),
      ExpandEnv = (\<lambda>s. s),
      UserHomeDir = Inr ''/home/ann'',
      ReadFile = (\<lambda>f. Inr []),
      ParsePublicKey = (\<lambda>b. None),
      ParsePrivateKey = (\<lambda>b. Some PassphraseMissingError),
      ParsePrivateKeyWithPassphrase = (\<lambda>b p. None),
      DialAgent = (\<lambda>t s. None),
      Listen = (\<lambda>t. Inr (''127.0.0.1'', 40000 + int t)),
      Handshake = (\<lambda>t a cb. None),
      Authenticate = (\<lambda>t a m. None),
      NewConnector = (\<lambda>dsn. None),
      PingContext = (\<lambda>t db timeout. None),
      QueryDB = (\<lambda>t db q args. if take 6 q = ''CREATE'' then Inr rows_none else Inr rows_empty),
      StatsDB = (\<lambda>t db. DBStats_zero\<lparr>OpenConnections := 1\<rparr>),
      CloseDB = (\<lambda>t db. Some (ExternalError ''close failed'')),
      CloseConn = (\<lambda>t c. Some (ExternalError ''close failed'')),
      CloseListener = (\<lambda>t l. Some (ExternalError ''close failed'')),
      convertString = (\<lambda>v. case v of DString s \<Rightarrow> Inr s
                                | _ \<Rightarrow> Inl (ExternalError ''unsupported Scan'')),
      stdScan = (\<lambda>s v. (s, None)),
      float32 = (\<lambda>f. 0)\<rparr>"

text \<open>The same world with an SSH server that refuses the first handshake.\<close>

definition env_flaky :: env where
  "env_flaky =
     env_ok\<lparr>Handshake := (\<lambda>t a cb. if t \<le> 1 then Some (ExternalError ''refused'') else None)\<rparr>"

definition world0 :: world where
  "world0 = \<lparr>trace = [], connections = (\<lambda>l. [])\<rparr>"

definition prompt_pw :: prompter where
  "prompt_pw = (\<lambda>t name instruction questions echos. Inr [''pw''])"

definition prompt_cancel :: prompter where
  "prompt_cancel = (\<lambda>t name instruction questions echos. Inl (ExternalError ''cancelled''))"

definition prompt_none :: prompter where
  "prompt_none = (\<lambda>t name instruction questions echos. Inr [])"

text \<open>A registry with two open connections and a tunnel that forwards two connections.\<close>

definition tunnel_live :: Tunnel where
  "tunnel_live =
     \<lparr>config = \<lparr>User = ''ann'', Auth = AuthPassword ''pw'',
                 HostKeyCallback = InsecureIgnoreHostKey, Timeout = 0\<rparr>,
      tunnelHost = ''bastion.example:22'', remoteHost = ''db.example:5432'',
      localConn = \<lparr>lid = 3, laddr_host = ''127.0.0.1'', laddr_port = 40003\<rparr>, client = 5\<rparr>"

definition dbman_live :: DBMan where
  "dbman_live =
     \<lparr>current = Some (dbMeta 1), cfg = cfg_ex,
      activeQueriers = [(''direct'', dbMeta 1), (''via'', dbMeta 9)],
      activeTunnels = [(''bastion'', tunnel_live)], currentName = ''direct''\<rparr>"

definition world_live :: world where
  "world_live = Tunnel_track tunnel_live 8 (Tunnel_track tunnel_live 7 world0)"

text \<open>The equation of \<open>digits\<close> calls itself, so it is not a rewrite rule.\<close>

declare digits.simps [simp del]

section \<open>Bytes, characters and hexadecimal digits\<close>

lemma char_of_byte_of_char: "char_of (unat (of_char c :: byte)) = c"
proof -
  have "(of_char c :: byte) = of_nat (of_char c)" by (simp only: of_nat_of_char)
  then have "unat (of_char c :: byte) = of_char c mod 256" by (simp only: unat_of_nat) simp
  then show ?thesis by simp
qed

lemma byte_of_char_of_byte: "of_char (char_of (unat w)) = (w::byte)"
proof -
  have "(of_char (char_of (unat w)) :: byte) = of_nat (of_char (char_of (unat w)))"
    by (simp only: of_nat_of_char)
  also have "\<dots> = of_nat (unat w mod 256)" by (simp only: of_char_of)
  also have "\<dots> = of_nat (unat w)"
  proof -
    have "unat w < 256" using unsigned_less [of w, where 'a=nat] by simp
    then show ?thesis by simp
  qed
  finally show ?thesis by simp
qed

lemma string_of_bytes_of_string: "string_of_bytes (bytes_of_string s) = s"
  by (induction s) (simp_all add: string_of_bytes_def bytes_of_string_def char_of_byte_of_char)

lemma bytes_of_string_of_bytes: "bytes_of_string (string_of_bytes bs) = bs"
  by (induction bs) (simp_all add: string_of_bytes_def bytes_of_string_def byte_of_char_of_byte)

lemma bytes_of_string_append:
  "bytes_of_string (xs @ ys) = bytes_of_string xs @ bytes_of_string ys"
  by (simp add: bytes_of_string_def)

lemma string_of_bytes_append:
  "string_of_bytes (xs @ ys) = string_of_bytes xs @ string_of_bytes ys"
  by (simp add: string_of_bytes_def)

lemma string_of_bytes_hyphen: "string_of_bytes (0x2d # xs) = CHR ''-'' # string_of_bytes xs"
proof -
  have "char_of (unat (of_char CHR ''-'' :: byte)) = CHR ''-''" by (rule char_of_byte_of_char)
  then show ?thesis by (simp add: string_of_bytes_def)
qed

lemma map_slice: "map f (slice xs lo hi) = slice (map f xs) lo hi"
  by (simp add: slice_def take_map drop_map)

lemma mask4: "(15::byte) = mask 4"
  by (simp add: mask_eq_exp_minus_1)

lemma low_nibble_less: "(v::byte) AND 0x0f < 16"
  using and_mask_less' [of 4 v] by (simp add: mask4)

lemma high_nibble_less: "drop_bit 4 (v::byte) < 16"
proof -
  have "unat v < 256" using unsigned_less [of v, where 'a=nat] by simp
  then have "unat v div 16 < 16" by arith
  then show ?thesis by (simp add: word_less_nat_alt drop_bit_eq_div unat_div)
qed

lemma unat_high_nibble: "unat (drop_bit 4 (v::byte)) = unat v div 16"
  by (simp add: drop_bit_eq_div unat_div)

lemma unat_low_nibble: "unat ((v::byte) AND 0x0f) = unat v mod 16"
  unfolding mask4
  by (simp add: take_bit_eq_mask [symmetric] unsigned_take_bit_eq take_bit_eq_mod unat_mod)

lemma nibble_cases:
  assumes "(n::byte) < 16"
  shows "n \<in> {0,1,2,3,4,5,6,7,8,9,10,11,12,13,14,15}"
proof -
  have "unat n < 16" using assms by (simp add: word_less_nat_alt)
  then have "unat n \<in> {0,1,2,3,4,5,6,7,8,9,10,11,12,13,14,15}" by simp arith
  then have "of_nat (unat n) \<in> (of_nat ` {0,1,2,3,4,5,6,7,8,9,10,11,12,13,14,15} :: byte set)"
    by (rule imageI)
  then show ?thesis by simp
qed

lemma nibbles_join: "push_bit 4 (drop_bit 4 v) OR (v AND 0x0f) = (v::byte)"
  unfolding mask4 by (rule bit_word_eqI) (auto simp: bit_simps)

lemma ascii_lower_inv:
  "ascii_lower p = c \<Longrightarrow> p = c \<or> (p = c - 0x20 \<and> 0x41 \<le> p \<and> p \<le> 0x5A)"
  by (auto simp: ascii_lower_def split: if_splits)

lemma fromHexChar_lower:
  "\<forall>n\<in>{0,1,2,3,4,5,6,7,8,9,10,11,12,13,14,15}.
     fromHexChar (of_char (hextable ! unat n)) = Some n"
  by (simp add: hextable_def fromHexChar_def)

lemma fromHexChar_upper:
  "\<forall>n\<in>{0,1,2,3,4,5,6,7,8,9,10,11,12,13,14,15}.
     0x41 \<le> (of_char (hextable ! unat n) :: byte) - 0x20 \<and>
     (of_char (hextable ! unat n) :: byte) - 0x20 \<le> 0x5A \<longrightarrow>
     fromHexChar (of_char (hextable ! unat n) - 0x20) = Some n"
  by (simp add: hextable_def fromHexChar_def)

lemma fromHexChar_either_case:
  "n < 16 \<Longrightarrow> ascii_lower p = of_char (hextable ! unat n) \<Longrightarrow> fromHexChar p = Some n"
  using fromHexChar_lower fromHexChar_upper nibble_cases [of n]
    ascii_lower_inv [of p "of_char (hextable ! unat n)"] by blast

text \<open>Decoding undoes encoding, whatever the case of the letters.\<close>

lemma hex_Decode_either_case:
  "map ascii_lower s = hex_Encode u \<Longrightarrow> hex_Decode s = (u, None)"
proof (induction u arbitrary: s)
  case Nil
  then show ?case by simp
next
  case (Cons v vs)
  then obtain p q rest where s: "s = p # q # rest"
    and p: "ascii_lower p = of_char (hextable ! unat (drop_bit 4 v))"
    and q: "ascii_lower q = of_char (hextable ! unat (v AND 0x0f))"
    and rest: "map ascii_lower rest = hex_Encode vs"
    by (cases s; cases "tl s") auto
  have "fromHexChar p = Some (drop_bit 4 v)"
    using high_nibble_less p by (rule fromHexChar_either_case)
  moreover have "fromHexChar q = Some (v AND 0x0f)"
    using low_nibble_less q by (rule fromHexChar_either_case)
  moreover have "hex_Decode rest = (vs, None)"
    using rest by (rule Cons.IH)
  ultimately show ?case
    by (simp add: s nibbles_join)
qed

lemma length_hex_Encode: "length (hex_Encode u) = 2 * length u"
  by (induction u) simp_all

lemma hex_Encode_lower_hex: "hex_Encode u = bytes_of_string (lower_hex u)"
  by (induction u)
    (simp_all add: lower_hex_def bytes_of_string_def hextable_def unat_high_nibble unat_low_nibble)

lemma take_lower_hex: "take (2 * n) (lower_hex u) = lower_hex (take n u)"
proof (induction u arbitrary: n)
  case Nil
  then show ?case by (simp add: lower_hex_def)
next
  case (Cons v vs)
  then show ?case by (cases n) (simp_all add: lower_hex_def)
qed

lemma drop_lower_hex: "drop (2 * n) (lower_hex u) = lower_hex (drop n u)"
proof (induction u arbitrary: n)
  case Nil
  then show ?case by (simp add: lower_hex_def)
next
  case (Cons v vs)
  then show ?case by (cases n) (simp_all add: lower_hex_def)
qed

lemma canonical_uuid_groups:
  "canonical_uuid u =
     lower_hex (slice u 0 4) @ ''-'' @ lower_hex (slice u 4 6) @ ''-'' @
     lower_hex (slice u 6 8) @ ''-'' @ lower_hex (slice u 8 10) @ ''-'' @ lower_hex (drop 10 u)"
  using take_lower_hex [of 4 u] take_lower_hex [of 2 "drop 4 u"] take_lower_hex [of 2 "drop 6 u"]
    take_lower_hex [of 2 "drop 8 u"] drop_lower_hex [of 4 u] drop_lower_hex [of 6 u]
    drop_lower_hex [of 8 u] drop_lower_hex [of 10 u]
  by (simp add: canonical_uuid_def slice_def Let_def)

section \<open>The UUID scanner\<close>

lemma uuidParse_raw:
  assumes "length u = 16" and "length dst = 16"
  shows "uuidParse dst u = (u, None)"
  using assms by (simp add: uuidParse_def copy_bytes_def)

lemma uuidParse_hex32:
  assumes u: "length u = 16" and dst: "length dst = 16"
    and inp: "map ascii_lower inp = bytes_of_string (lower_hex u)"
  shows "uuidParse dst inp = (u, None)"
proof -
  have enc: "map ascii_lower inp = hex_Encode u"
    using inp by (simp add: hex_Encode_lower_hex)
  have "length (map ascii_lower inp) = 32"
    unfolding enc using u by (simp add: length_hex_Encode)
  then have len: "length inp = 32" by simp
  have "hex_Decode inp = (u, None)"
    using enc by (rule hex_Decode_either_case)
  then show ?thesis
    using len u dst by (simp add: uuidParse_def write_at_def)
qed

lemma uuidParse_hyphenated:
  assumes u: "length u = 16" and dst: "length dst = 16"
    and inp: "map ascii_lower inp = bytes_of_string (canonical_uuid u)"
  shows "uuidParse dst inp = (u, None)"
proof -
  define L where "L = map ascii_lower inp"
  define A where "A = hex_Encode (slice u 0 4)"
  define B where "B = hex_Encode (slice u 4 6)"
  define C where "C = hex_Encode (slice u 6 8)"
  define D where "D = hex_Encode (slice u 8 10)"
  define E where "E = hex_Encode (slice u 10 16)"
  have lens: "length A = 8" "length B = 4" "length C = 4" "length D = 4" "length E = 12"
    using u by (simp_all add: A_def B_def C_def D_def E_def length_hex_Encode slice_def)
  have "slice u 10 16 = drop 10 u" using u by (simp add: slice_def)
  then have L: "L = A @ [0x2d] @ B @ [0x2d] @ C @ [0x2d] @ D @ [0x2d] @ E"
    unfolding L_def inp canonical_uuid_groups A_def B_def C_def D_def E_def
    by (simp add: bytes_of_string_append hex_Encode_lower_hex) (simp add: bytes_of_string_def)
  have "length L = 36" unfolding L using lens by simp
  then have len: "length inp = 36" by (simp add: L_def)
  have sl: "slice L 0 8 = A" "slice L 9 13 = B" "slice L 14 18 = C" "slice L 19 23 = D"
    "slice L 24 36 = E"
    unfolding L using lens by (simp_all add: slice_def)
  have d1: "hex_Decode (slice inp 0 8) = (slice u 0 4, None)"
    by (rule hex_Decode_either_case) (simp add: map_slice sl L_def [symmetric] A_def [symmetric])
  have d2: "hex_Decode (slice inp 9 13) = (slice u 4 6, None)"
    by (rule hex_Decode_either_case) (simp add: map_slice sl L_def [symmetric] B_def [symmetric])
  have d3: "hex_Decode (slice inp 14 18) = (slice u 6 8, None)"
    by (rule hex_Decode_either_case) (simp add: map_slice sl L_def [symmetric] C_def [symmetric])
  have d4: "hex_Decode (slice inp 19 23) = (slice u 8 10, None)"
    by (rule hex_Decode_either_case) (simp add: map_slice sl L_def [symmetric] D_def [symmetric])
  have d5: "hex_Decode (slice inp 24 36) = (slice u 10 16, None)"
    by (rule hex_Decode_either_case) (simp add: map_slice sl L_def [symmetric] E_def [symmetric])
  have w1: "write_at dst 0 (slice u 0 4) = take 4 u @ drop 4 dst"
    using u dst by (simp add: write_at_def slice_def)
  have w2: "write_at (take 4 u @ drop 4 dst) 4 (slice u 4 6) = take 6 u @ drop 6 dst"
    using u dst by (simp add: write_at_def slice_def take_add [of 4 2 u, simplified])
  have w3: "write_at (take 6 u @ drop 6 dst) 6 (slice u 6 8) = take 8 u @ drop 8 dst"
    using u dst by (simp add: write_at_def slice_def take_add [of 6 2 u, simplified])
  have w4: "write_at (take 8 u @ drop 8 dst) 8 (slice u 8 10) = take 10 u @ drop 10 dst"
    using u dst by (simp add: write_at_def slice_def take_add [of 8 2 u, simplified])
  have w5: "write_at (take 10 u @ drop 10 dst) 10 (slice u 10 16) = u"
    using u dst by (simp add: write_at_def slice_def)
  show ?thesis
    using len by (simp add: uuidParse_def d1 d2 d3 d4 d5 w1 w2 w3 w4 w5)
qed

lemma uuidParse_wire_encoding:
  assumes "length u = 16" and "length dst = 16" and "is_wire_encoding u inp"
  shows "uuidParse dst inp = (u, None)"
  using assms uuidParse_raw uuidParse_hex32 uuidParse_hyphenated
  unfolding is_wire_encoding_def by blast

lemma uuidParse_bad_length:
  assumes "length inp \<noteq> 16" and "length inp \<noteq> 32" and "length inp \<noteq> 36"
  shows "uuidParse dst inp = (dst, Some (ErrUnexpectedNumBytes (length inp)))"
  using assms by (simp add: uuidParse_def)

lemma uuidVal_String_canonical:
  assumes "length u = 16"
  shows "uuidVal_String \<lparr>UUID = u, Valid = True\<rparr> = canonical_uuid u"
proof -
  have "slice u 10 16 = drop 10 u" using assms by (simp add: slice_def)
  then show ?thesis
    by (simp add: uuidVal_String_def canonical_uuid_groups hex_Encode_lower_hex
        string_of_bytes_of_string string_of_bytes_append string_of_bytes_hyphen)
qed

text \<open>
  C7. Let \<open>u\<close> be a UUID of 16 bytes and \<open>v\<close> a scanner, in any state. Scanning any
  of the three wire encodings of \<open>u\<close> (the 16 raw bytes, the 32 hexadecimal digits, the
  36 characters with hyphens, letters in either case), given as bytes or as a string,
  succeeds and leaves a value whose display string is the canonical lower-case
  hyphenated text of \<open>u\<close>. Scanning bytes or a string of any length other than 16, 32
  and 36 is rejected with an error.
\<close>

theorem uuid_wire_encodings_canonical:
  assumes "length u = 16" and "length (UUID v) = 16"
  shows "(is_wire_encoding u inp \<longrightarrow>
            (\<forall>raw \<in> {DBytes inp, DString (string_of_bytes inp)}.
               snd (uuidVal_Scan v raw) = None \<and>
               uuidVal_String (fst (uuidVal_Scan v raw)) = canonical_uuid u)) \<and>
         (length inp \<notin> {16, 32, 36} \<longrightarrow>
            (\<forall>raw \<in> {DBytes inp, DString (string_of_bytes inp)}.
               snd (uuidVal_Scan v raw) = Some (ErrUnexpectedNumBytes (length inp))))"
proof (intro conjI impI)
  assume enc: "is_wire_encoding u inp"
  have "uuidParse (UUID v) inp = (u, None)"
    using assms enc by (rule uuidParse_wire_encoding)
  then show "\<forall>raw \<in> {DBytes inp, DString (string_of_bytes inp)}.
               snd (uuidVal_Scan v raw) = None \<and>
               uuidVal_String (fst (uuidVal_Scan v raw)) = canonical_uuid u"
    using uuidVal_String_canonical [OF assms(1)]
    by (cases v) (simp add: bytes_of_string_of_bytes)
next
  assume "length inp \<notin> {16, 32, 36}"
  then have "uuidParse (UUID v) inp = (UUID v, Some (ErrUnexpectedNumBytes (length inp)))"
    by (simp add: uuidParse_bad_length)
  then show "\<forall>raw \<in> {DBytes inp, DString (string_of_bytes inp)}.
               snd (uuidVal_Scan v raw) = Some (ErrUnexpectedNumBytes (length inp))"
    by (simp add: bytes_of_string_of_bytes)
qed

theorem uuid_wire_encodings_canonical_witness:
  "is_wire_encoding
     [0x12, 0x34, 0x56, 0x78, 0x9a, 0xbc, 0xde, 0xf0, 0x12, 0x34, 0x56, 0x78, 0x9a, 0xbc, 0xde, 0xf0]
     (bytes_of_string ''12345678-9ABC-def0-1234-56789aBcDeF0'') \<and>
   uuidVal_String (fst (uuidVal_Scan \<lparr>UUID = replicate 16 0, Valid = False\<rparr>
     (DBytes (bytes_of_string ''12345678-9ABC-def0-1234-56789aBcDeF0'')))) =
   ''12345678-9abc-def0-1234-56789abcdef0'' \<and>
   snd (uuidVal_Scan \<lparr>UUID = replicate 16 0, Valid = False\<rparr> (DBytes [1, 2, 3])) =
   Some (ErrUnexpectedNumBytes 3)"
proof -
  let ?u = "[0x12, 0x34, 0x56, 0x78, 0x9a, 0xbc, 0xde, 0xf0,
             0x12, 0x34, 0x56, 0x78, 0x9a, 0xbc, 0xde, 0xf0] :: byte list"
  let ?v = "\<lparr>UUID = replicate 16 0, Valid = False\<rparr>"
  let ?i = "bytes_of_string ''12345678-9ABC-def0-1234-56789aBcDeF0''"
  have u: "length ?u = 16" by simp
  have v: "length (UUID ?v) = 16" by simp
  have c: "canonical_uuid ?u = ''12345678-9abc-def0-1234-56789abcdef0''"
    by code_simp
  have e: "is_wire_encoding ?u ?i"
    by code_simp
  have n: "length [1, 2, 3 :: byte] \<notin> {16, 32, 36}" by simp
  show ?thesis
    using uuid_wire_encodings_canonical [OF u v, of ?i]
      uuid_wire_encodings_canonical [OF u v, of "[1, 2, 3]"] e c n
    by simp
qed

section \<open>Table names\<close>

lemma strings_Split_nonempty: "strings_Split s sep \<noteq> []"
  by (induction s) simp_all

lemma length_strings_Split: "length (strings_Split s sep) = Suc (count_list s sep)"
proof (induction s)
  case Nil
  then show ?case by simp
next
  case (Cons c cs)
  have "length (tl (strings_Split cs sep)) = count_list cs sep"
    using Cons.IH by simp
  then show ?case using Cons.IH by simp
qed

text \<open>
  C5 (amended). A table name whose number of parts between the dots is neither one nor
  two is rejected with the error for an invalid table name, and no query is issued: the
  world, with its trace, is as before. This holds for both copies of the metadata
  provider and through the registry's \<^verbatim>\<open>DescribeTable\<close>. The number of parts is the
  number of dots plus one, so it is never zero.
\<close>

theorem DescribeTable_rejects_part_counts:
  assumes "length (strings_Split tablename CHR ''.'') \<notin> {1, 2}"
  shows "dbMeta_DescribeTable E m tablename w = ((None, Some (ErrInvalidTableName tablename)), w) \<and>
         dbMeta_DescribeTable_alt E m tablename w =
           ((None, Some (ErrInvalidTableName tablename)), w) \<and>
         (current d = Some m \<longrightarrow>
            DescribeTable E d tablename w = ((None, Some (ErrInvalidTableName tablename)), w)) \<and>
         length (strings_Split tablename CHR ''.'') = Suc (count_list tablename CHR ''.'')"
  using assms
  by (simp add: dbMeta_DescribeTable_def dbMeta_DescribeTable_alt_def DescribeTable_def
      length_strings_Split)

theorem DescribeTable_rejects_part_counts_witness:
  "length (strings_Split ''a.b.c'' CHR ''.'') \<notin> {1, 2} \<and>
   current dbman_live = Some (dbMeta 1) \<and>
   DescribeTable env_ok dbman_live ''a.b.c'' world0 =
     ((None, Some (ErrInvalidTableName ''a.b.c'')), world0)"
proof -
  have h: "length (strings_Split ''a.b.c'' CHR ''.'') \<notin> {1, 2}" by simp
  have c: "current dbman_live = Some (dbMeta 1)" by (simp add: dbman_live_def)
  show ?thesis
    using DescribeTable_rejects_part_counts [OF h, of env_ok "dbMeta 1" world0 dbman_live] h c
    by simp
qed

text \<open>
  The empty name has one part, the empty string. It passes the switch, and the query is
  issued for the table with the empty name in the schema \<open>public\<close>.
\<close>

theorem DescribeTable_empty_name_counterexample:
  "fst (dbMeta_DescribeTable env_ok (dbMeta 0) '''' world0) =
     (Some \<lparr>TableName = '''', TableColumns = []\<rparr>, None) \<and>
   trace (snd (dbMeta_DescribeTable env_ok (dbMeta 0) '''' world0)) =
     [EvQuery 0 sql_DescribeTable [''public'', '''']]"
  by (simp add: dbMeta_DescribeTable_def dbMeta_Query_def env_ok_def world0_def now_def emit_def
      sql_DescribeTable_def rows_empty_def)

section \<open>No current connection\<close>

text \<open>
  C4 (amended). With no current connection, \<^verbatim>\<open>ListTables\<close>, \<^verbatim>\<open>ListSchemas\<close>,
  \<^verbatim>\<open>DescribeTable\<close> and \<^verbatim>\<open>Query\<close> return the error that an active connection is
  required, with no result and without touching the world; \<^verbatim>\<open>Stats\<close>, which has no
  error to return, returns the zero statistics.
\<close>

theorem no_current_connection:
  assumes "current d = None"
  shows "ListTables E d schema w = (([], Some ErrNoActiveConnection), w) \<and>
         ListSchemas E d w = (([], Some ErrNoActiveConnection), w) \<and>
         DescribeTable E d name w = ((None, Some ErrNoActiveConnection), w) \<and>
         Query E d script w = ((None, Some ErrNoActiveConnection), w) \<and>
         Stats E d w = DBStats_zero"
  using assms
  by (simp add: ListTables_def ListSchemas_def DescribeTable_def Query_def Stats_def)

theorem no_current_connection_witness:
  "current (New cfg_ex) = None \<and>
   Query env_ok (New cfg_ex) ''SELECT 1'' world0 = ((None, Some ErrNoActiveConnection), world0) \<and>
   ListTables env_ok (New cfg_ex) ''public'' world0 = (([], Some ErrNoActiveConnection), world0)"
proof -
  have h: "current (New cfg_ex) = None" by (simp add: New_def)
  show ?thesis
    using no_current_connection [OF h, of env_ok "''public''" world0 "''t''" "''SELECT 1''"] h
    by simp
qed

text \<open>On a new registry \<^verbatim>\<open>Stats\<close> returns the zero statistics, not an error.\<close>

theorem Stats_no_current_counterexample:
  "current (New cfg_ex) = None \<and>
   Stats env_ok (New cfg_ex) world0 =
     \<lparr>MaxOpenConnections = 0, OpenConnections = 0, InUse = 0, Idle = 0, WaitCount = 0,
      WaitDuration = 0, MaxIdleClosed = 0, MaxIdleTimeClosed = 0, MaxLifetimeClosed = 0\<rparr>"
  by (simp add: New_def Stats_def DBStats_zero_def)

section \<open>Query\<close>

text \<open>
  C6. Let the statement run without error on the current connection and report its
  column types. With no column, \<^verbatim>\<open>Query\<close> returns a nil result and a nil error. With
  columns and no row, it returns a result that is not nil, with the names of the columns
  in their order and no rows. The two differ.
\<close>

theorem Query_no_columns_or_no_rows:
  assumes "current d = Some m"
    and "dbMeta_Query E m script [] w = (Inr r, w1)"
    and "columnTypes r = Inr columns"
  shows "(columns = [] \<longrightarrow> Query E d script w = ((None, None), w1)) \<and>
         (columns \<noteq> [] \<and> rowData r = [] \<longrightarrow>
            Query E d script w =
              ((Some \<lparr>Columns = map fst columns, Rows = []\<rparr>, rowsErr r), w1))"
  using assms by (simp add: Query_def)

theorem Query_no_columns_or_no_rows_witness:
  "current dbman_live = Some (dbMeta 1) \<and>
   fst (Query env_ok dbman_live ''CREATE TABLE t (id int)'' world0) = (None, None) \<and>
   fst (Query env_ok dbman_live ''SELECT id, name FROM t'' world0) =
     (Some \<lparr>Columns = [''id'', ''name''], Rows = []\<rparr>, None)"
proof -
  let ?w1 = "emit (EvQuery 1 ''CREATE TABLE t (id int)'' []) world0"
  let ?w2 = "emit (EvQuery 1 ''SELECT id, name FROM t'' []) world0"
  have c: "current dbman_live = Some (dbMeta 1)" by (simp add: dbman_live_def)
  have q1: "dbMeta_Query env_ok (dbMeta 1) ''CREATE TABLE t (id int)'' [] world0 = (Inr rows_none, ?w1)"
    by (simp add: dbMeta_Query_def env_ok_def)
  have q2: "dbMeta_Query env_ok (dbMeta 1) ''SELECT id, name FROM t'' [] world0 = (Inr rows_empty, ?w2)"
    by (simp add: dbMeta_Query_def env_ok_def)
  have t1: "columnTypes rows_none = Inr []" by (simp add: rows_none_def)
  have t2: "columnTypes rows_empty = Inr [(''id'', ''int4''), (''name'', ''text'')]"
    by (simp add: rows_empty_def)
  show ?thesis
    using Query_no_columns_or_no_rows [OF c q1 t1] Query_no_columns_or_no_rows [OF c q2 t2] c
    by (simp add: rows_empty_def)
qed

section \<open>Close\<close>

lemma trace_emit: "trace (emit ev w) = trace w @ [ev]"
  by (simp add: emit_def)

lemma connections_emit: "connections (emit ev w) = connections w"
  by (simp add: emit_def)

lemma closeAll_world:
  "trace (closeAll E cs w) = trace w @ map EvCloseConn cs \<and>
   connections (closeAll E cs w) = connections w"
  by (induction cs arbitrary: w) (simp_all add: trace_emit connections_emit)

lemma Tunnel_Close_world:
  "trace (snd (Tunnel_Close E t w)) = trace w @ tunnel_close_events w t \<and>
   connections (snd (Tunnel_Close E t w)) = connections w"
  by (simp add: Tunnel_Close_def Let_def trace_emit connections_emit closeAll_world
      tunnel_close_events_def)

lemma closeQueriers_world:
  "trace (closeQueriers E qs w) = trace w @ map (\<lambda>(name, q). EvCloseDB (handle q)) qs \<and>
   connections (closeQueriers E qs w) = connections w"
proof (induction qs arbitrary: w)
  case Nil
  then show ?case by simp
next
  case (Cons nq qs)
  obtain name db where nq: "nq = (name, dbMeta db)"
    by (cases nq; cases "snd nq") auto
  show ?case
    by (simp add: nq Cons.IH trace_emit connections_emit handle_def)
qed

lemma closeTunnels_world:
  "trace (closeTunnels E ts w) =
     trace w @ concat (map (\<lambda>(name, t). tunnel_close_events w t) ts) \<and>
   connections (closeTunnels E ts w) = connections w"
proof (induction ts arbitrary: w)
  case Nil
  then show ?case by simp
next
  case (Cons nt ts)
  obtain name t where nt: "nt = (name, t)" by (cases nt)
  obtain r w1 where tc: "Tunnel_Close E t w = (r, w1)" by (cases "Tunnel_Close E t w")
  have w1: "trace w1 = trace w @ tunnel_close_events w t" "connections w1 = connections w"
    using Tunnel_Close_world [of E t w] by (simp_all add: tc)
  show ?case
    by (simp add: nt tc Cons.IH w1 tunnel_close_events_def)
qed

lemma Close_trace:
  "trace (snd (Close E d w)) =
     trace w @ map (\<lambda>(name, q). EvCloseDB (handle q)) (activeQueriers d) @
     concat (map (\<lambda>(name, t). tunnel_close_events w t) (activeTunnels d))"
  by (simp add: Close_def closeTunnels_world closeQueriers_world tunnel_close_events_def)

lemma closed_in_order_tunnel_close_events:
  "closed_in_order (tunnel_close_events w t) (lid (localConn t)) (connections w (lid (localConn t)))"
  unfolding closed_in_order_def tunnel_close_events_def
  by (rule exI [of _ "length (connections w (lid (localConn t)))"]) (simp add: nth_append)

lemma closed_in_order_extend:
  assumes "closed_in_order evs l cs"
  shows "closed_in_order (pre @ evs @ post) l cs"
proof -
  from assms obtain i where i: "i < length evs" "evs ! i = EvCloseListener l"
    "\<forall>c \<in> set cs. EvCloseConn c \<in> set (take i evs)"
    unfolding closed_in_order_def by blast
  have "(pre @ evs @ post) ! (length pre + i) = EvCloseListener l"
    using i by (simp add: nth_append)
  moreover have "\<forall>c \<in> set cs. EvCloseConn c \<in> set (take (length pre + i) (pre @ evs @ post))"
    using i by (simp add: take_append) 
  moreover have "length pre + i < length (pre @ evs @ post)" using i by simp
  ultimately show ?thesis unfolding closed_in_order_def by blast
qed

lemma closed_in_order_concat:
  assumes "(name, t) \<in> set ts"
  shows "closed_in_order (concat (map (\<lambda>(name, t). tunnel_close_events w t) ts))
           (lid (localConn t)) (connections w (lid (localConn t)))"
proof -
  from assms obtain ts1 ts2 where ts: "ts = ts1 @ (name, t) # ts2"
    by (meson split_list)
  show ?thesis
    unfolding ts
    using closed_in_order_extend [OF closed_in_order_tunnel_close_events,
        of "concat (map (\<lambda>(name, t). tunnel_close_events w t) ts1)" w t
           "concat (map (\<lambda>(name, t). tunnel_close_events w t) ts2)"]
    by simp
qed

text \<open>
  C8. For every registry, every world and every answer of the outside world to the
  close calls: \<^verbatim>\<open>Close\<close> returns normally with a nil error; among the events it adds
  to the trace there is the close of every cached connection handle, and for every
  cached tunnel the close of its listener, with the close of each of the tunnel's
  tracked connections at an earlier place. The registry itself is not changed.
\<close>

theorem Close_closes_everything:
  "fst (Close E d w) = None \<and>
   (\<forall>(name, q) \<in> set (activeQueriers d).
      EvCloseDB (handle q) \<in> set (drop (length (trace w)) (trace (snd (Close E d w))))) \<and>
   (\<forall>(name, t) \<in> set (activeTunnels d).
      closed_in_order (drop (length (trace w)) (trace (snd (Close E d w))))
        (lid (localConn t)) (connections w (lid (localConn t))))"
proof (intro conjI ballI)
  show "fst (Close E d w) = None" by (simp add: Close_def)
next
  fix nq assume "nq \<in> set (activeQueriers d)"
  then show "case nq of (name, q) \<Rightarrow>
      EvCloseDB (handle q) \<in> set (drop (length (trace w)) (trace (snd (Close E d w))))"
    by (auto simp: Close_trace)
next
  fix nt assume nt: "nt \<in> set (activeTunnels d)"
  obtain name t where p: "nt = (name, t)" by (cases nt)
  have "closed_in_order
          ([] @ concat (map (\<lambda>(name, t). tunnel_close_events w t) (activeTunnels d)) @ [])
          (lid (localConn t)) (connections w (lid (localConn t)))"
    using closed_in_order_concat [of name t "activeTunnels d" w] nt p by simp
  then have "closed_in_order
          (map (\<lambda>(name, q). EvCloseDB (handle q)) (activeQueriers d) @
           concat (map (\<lambda>(name, t). tunnel_close_events w t) (activeTunnels d)) @ [])
          (lid (localConn t)) (connections w (lid (localConn t)))"
    using closed_in_order_extend [OF closed_in_order_concat [of name t "activeTunnels d" w],
        of "map (\<lambda>(name, q). EvCloseDB (handle q)) (activeQueriers d)" "[]"] nt p
    by simp
  then show "case nt of (name, t) \<Rightarrow>
      closed_in_order (drop (length (trace w)) (trace (snd (Close E d w))))
        (lid (localConn t)) (connections w (lid (localConn t)))"
    by (simp add: p Close_trace)
qed

theorem Close_closes_everything_witness:
  "CloseDB env_ok 0 1 \<noteq> None \<and>
   (''via'', dbMeta 9) \<in> set (activeQueriers dbman_live) \<and>
   (''bastion'', tunnel_live) \<in> set (activeTunnels dbman_live) \<and>
   connections world_live (lid (localConn tunnel_live)) = [7, 8] \<and>
   fst (Close env_ok dbman_live world_live) = None \<and>
   EvCloseDB 9 \<in> set (trace (snd (Close env_ok dbman_live world_live))) \<and>
   closed_in_order (trace (snd (Close env_ok dbman_live world_live))) 3 [7, 8]"
proof -
  have q: "(''via'', dbMeta 9) \<in> set (activeQueriers dbman_live)"
    by (simp add: dbman_live_def)
  have t: "(''bastion'', tunnel_live) \<in> set (activeTunnels dbman_live)"
    by (simp add: dbman_live_def)
  have c: "connections world_live (lid (localConn tunnel_live)) = [7, 8]"
    by (simp add: world_live_def Tunnel_track_def world0_def tunnel_live_def)
  have l: "lid (localConn tunnel_live) = 3" by (simp add: tunnel_live_def)
  have w: "trace world_live = []" by (simp add: world_live_def Tunnel_track_def world0_def)
  have e: "CloseDB env_ok 0 1 \<noteq> None" by (simp add: env_ok_def)
  show ?thesis
    using Close_closes_everything [of env_ok dbman_live world_live] q t c l w e
    by (auto simp: handle_def)
qed

section \<open>Counting events\<close>

lemma count_events_emit:
  "count_events p (emit ev w) = (if p ev then Suc (count_events p w) else count_events p w)"
  by (simp add: count_events_def emit_def)

lemma passphraseLoop_count:
  assumes "passphraseLoop E P tunnel buf n err w = (r, w')"
    and "\<And>a b c d. \<not> p (EvPrompt a b c d)"
  shows "count_events p w' = count_events p w"
  using assms(1)
proof (induction n arbitrary: err w)
  case 0
  then show ?case by auto
next
  case (Suc n)
  then show ?case
    by (auto simp: Let_def count_events_emit assms(2) split: sum.splits list.splits option.splits)
qed

lemma privateKeySigners_count:
  assumes "privateKeySigners E P tunnel buf w = (r, w')"
    and "\<And>a b c d. \<not> p (EvPrompt a b c d)"
  shows "count_events p w' = count_events p w"
  using assms(1) passphraseLoop_count [where p = p, OF _ assms(2)]
  by (auto simp: privateKeySigners_def
      split: option.splits prod.splits result.splits if_splits)

lemma ssh_Dial_count_client:
  assumes "ssh_Dial E P tunnel addr cc w = (r, w')"
  shows "count_events is_SshClient w' =
     (case r of Ok c \<Rightarrow> Suc (count_events is_SshClient w) | _ \<Rightarrow> count_events is_SshClient w)"
proof -
  have k: "\<And>buf w r w'. privateKeySigners E P tunnel buf w = (r, w') \<Longrightarrow>
             count_events is_SshClient w' = count_events is_SshClient w"
    by (erule privateKeySigners_count) simp
  show ?thesis
    using assms
    by (cases "Auth cc")
      (auto simp: ssh_Dial_def Let_def count_events_emit
        split: option.splits prod.splits result.splits dest!: k)
qed

lemma NewTunnel_auth_count:
  assumes "NewTunnel_auth E tunnel homedir w = (r, w')"
    and "\<And>s. \<not> p (EvDialAgent s)"
  shows "count_events p w' = count_events p w"
  using assms(1)
  by (auto simp: NewTunnel_auth_def Let_def count_events_emit assms(2)
      split: sum.splits option.splits if_splits)

lemma NewTunnel_count_client:
  assumes "NewTunnel E P tunnel host port w = (r, w')"
  shows "count_events is_SshClient w' =
     (case r of Ok t \<Rightarrow> Suc (count_events is_SshClient w) | _ \<Rightarrow> count_events is_SshClient w)"
proof -
  have a: "\<And>homedir r w'. NewTunnel_auth E tunnel homedir w = (r, w') \<Longrightarrow>
             count_events is_SshClient w' = count_events is_SshClient w"
    by (erule NewTunnel_auth_count) simp
  show ?thesis
    using assms
    by (auto simp: NewTunnel_def Let_def count_events_emit
        split: sum.splits prod.splits result.splits dest!: a ssh_Dial_count_client)
qed

lemma ssh_Dial_count_other:
  assumes "ssh_Dial E P tunnel addr cc w = (r, w')"
    and np: "\<And>a b c d. \<not> p (EvPrompt a b c d)"
    and nd: "\<And>a. \<not> p (EvSshDial a)"
    and nc: "\<And>c. \<not> p (EvSshClient c)"
  shows "count_events p w' = count_events p w"
proof -
  have k: "\<And>buf w r w'. privateKeySigners E P tunnel buf w = (r, w') \<Longrightarrow>
             count_events p w' = count_events p w"
    by (erule privateKeySigners_count) (rule np)
  show ?thesis
    using assms(1)
    by (cases "Auth cc")
      (auto simp: ssh_Dial_def Let_def count_events_emit nd nc
        split: option.splits prod.splits result.splits dest!: k)
qed

lemma NewTunnel_count_other:
  assumes "NewTunnel E P tunnel host port w = (r, w')"
    and np: "\<And>a b c d. \<not> p (EvPrompt a b c d)"
    and na: "\<And>s. \<not> p (EvDialAgent s)"
    and nl: "\<And>l. \<not> p (EvListen l)"
    and nd: "\<And>a. \<not> p (EvSshDial a)"
    and nc: "\<And>c. \<not> p (EvSshClient c)"
  shows "count_events p w' = count_events p w"
proof -
  have a: "\<And>homedir r w'. NewTunnel_auth E tunnel homedir w = (r, w') \<Longrightarrow>
             count_events p w' = count_events p w"
    by (erule NewTunnel_auth_count) (rule na)
  have sd: "\<And>addr cc w r w'. ssh_Dial E P tunnel addr cc w = (r, w') \<Longrightarrow>
             count_events p w' = count_events p w"
    by (erule ssh_Dial_count_other) (rule np nd nc)+
  show ?thesis
    using assms(1)
    by (auto simp: NewTunnel_def Let_def count_events_emit nl
        split: sum.splits prod.splits result.splits dest!: a sd)
qed

lemma SwitchConnection_tunnel_count_other:
  assumes "SwitchConnection_tunnel E P d conn w = (r, d1, w1)"
    and np: "\<And>a b c d. \<not> p (EvPrompt a b c d)"
    and na: "\<And>s. \<not> p (EvDialAgent s)"
    and nl: "\<And>l. \<not> p (EvListen l)"
    and nd: "\<And>a. \<not> p (EvSshDial a)"
    and nc: "\<And>c. \<not> p (EvSshClient c)"
  shows "count_events p w1 = count_events p w"
proof -
  have n: "\<And>tunnelCfg r w'. NewTunnel E P tunnelCfg (Host conn) (Port conn) w = (r, w') \<Longrightarrow>
             count_events p w' = count_events p w"
    by (erule NewTunnel_count_other) (rule np na nl nd nc)+
  show ?thesis
    using assms(1)
    by (auto simp: SwitchConnection_tunnel_def Let_def
        split: if_splits option.splits prod.splits result.splits dest!: n)
qed

section \<open>The blocks of SwitchConnection\<close>

lemma SwitchConnection_tunnel_frame:
  assumes "SwitchConnection_tunnel E P d conn w = (r, d1, w1)"
  shows "activeQueriers d1 = activeQueriers d \<and> current d1 = current d \<and>
         currentName d1 = currentName d \<and> cfg d1 = cfg d"
  using assms
  by (auto simp: SwitchConnection_tunnel_def Let_def
      split: if_splits option.splits prod.splits result.splits)

lemma SwitchConnection_tunnel_reuse:
  assumes "Tunnel conn = '''' \<or> map_of (activeTunnels d) (Tunnel conn) \<noteq> None"
  shows "\<exists>conn1. SwitchConnection_tunnel E P d conn w = (Ok conn1, d, w)"
  using assms by (auto simp: SwitchConnection_tunnel_def)

lemma SwitchConnection_tunnel_establish:
  assumes "SwitchConnection_tunnel E P d conn w = (r, d1, w1)"
    and "Tunnel conn \<noteq> ''''" and "map_of (activeTunnels d) (Tunnel conn) = None"
  shows "(\<exists>conn1 t. r = Ok conn1 \<and>
            activeTunnels d1 = AList.update (Tunnel conn) t (activeTunnels d) \<and>
            count_events is_SshClient w1 = Suc (count_events is_SshClient w)) \<or>
         ((\<forall>c. r \<noteq> Ok c) \<and> activeTunnels d1 = activeTunnels d \<and>
            count_events is_SshClient w1 = count_events is_SshClient w)"
  using assms
  by (auto simp: SwitchConnection_tunnel_def Let_def
      split: prod.splits result.splits dest!: NewTunnel_count_client)

lemma SwitchConnection_tunnel_copy:
  assumes "SwitchConnection_tunnel E P d conn w = (Ok conn1, d1, w1)"
  shows "Password conn1 = Password conn \<and> Driver conn1 = Driver conn \<and>
         ConnectTimeoutSec conn1 = ConnectTimeoutSec conn \<and>
         (Tunnel conn \<noteq> '''' \<longrightarrow>
            (\<exists>t. map_of (activeTunnels d1) (Tunnel conn) = Some t \<and>
                 Host conn1 = laddr_host (localConn t) \<and>
                 Port conn1 = laddr_port (localConn t)))"
  using assms
  by (auto simp: SwitchConnection_tunnel_def Let_def update_conv'
      split: if_splits option.splits prod.splits result.splits)

lemma SwitchConnection_password_copy:
  assumes "SwitchConnection_password E P conn w = (Ok conn1, w1)"
  shows "Driver conn1 = Driver conn \<and> ConnectTimeoutSec conn1 = ConnectTimeoutSec conn \<and>
         Host conn1 = Host conn \<and> Port conn1 = Port conn"
  using assms
  by (auto simp: SwitchConnection_password_def Let_def split: if_splits sum.splits list.splits)

lemma SwitchConnection_password_count:
  assumes "SwitchConnection_password E P conn w = (r, w1)"
    and "\<And>a b c d. \<not> p (EvPrompt a b c d)"
  shows "count_events p w1 = count_events p w"
  using assms(1)
  by (auto simp: SwitchConnection_password_def Let_def count_events_emit assms(2)
      split: if_splits sum.splits list.splits)

lemma SwitchConnection_driver_count:
  assumes "SwitchConnection_driver E conn w = (r, w1)"
    and "\<And>db dsn. \<not> p (EvOpenDB db dsn)"
    and "\<And>db n. \<not> p (EvSetMaxOpenConns db n)"
    and "\<And>db n. \<not> p (EvSetConnMaxIdleTime db n)"
  shows "count_events p w1 = count_events p w"
  using assms(1)
  by (auto simp: SwitchConnection_driver_def postgresOpen_def Let_def count_events_emit
      assms(2,3,4) split: if_splits option.splits prod.splits sum.splits)

lemma SwitchConnection_driver_count_open:
  assumes "SwitchConnection_driver E conn w = (r, w1)"
  shows "count_events is_OpenDB w1 =
           (case r of Ok q \<Rightarrow> Suc (count_events is_OpenDB w) | _ \<Rightarrow> count_events is_OpenDB w) \<and>
         count_events is_Ping w1 = count_events is_Ping w"
  using assms
  by (auto simp: SwitchConnection_driver_def postgresOpen_def Let_def count_events_emit
      split: if_splits option.splits prod.splits sum.splits)

section \<open>SwitchConnection as a whole\<close>

lemma SwitchConnection_unconfigured:
  assumes "Connections (cfg d) name = None"
  shows "SwitchConnection E d name P w = (Err (ErrNotConfigured name), d, w)"
  using assms by (simp add: SwitchConnection_def)

lemma SwitchConnection_cached:
  assumes "Connections (cfg d) name = Some conn" and "map_of (activeQueriers d) name = Some q"
  shows "SwitchConnection E d name P w = (Ok (), d\<lparr>current := Some q, currentName := name\<rparr>, w)"
  using assms by (simp add: SwitchConnection_def)

lemma SwitchConnection_uncached:
  assumes "Connections (cfg d) name = Some conn" and "map_of (activeQueriers d) name = None"
    and "SwitchConnection E d name P w = (r, d', w')"
  shows "\<exists>r0 d1 w1. SwitchConnection_tunnel E P d conn w = (r0, d1, w1) \<and>
           ((r \<noteq> Ok () \<and> d' = d1) \<or>
            (r = Ok () \<and>
             (\<exists>conn1 conn2 w2 w3 db.
                r0 = Ok conn1 \<and>
                SwitchConnection_password E P conn1 w1 = (Ok conn2, w2) \<and>
                SwitchConnection_driver E conn2 w2 = (Ok (dbMeta db), w3) \<and>
                PingContext E (now w3) db (ConnectTimeoutSec conn2) = None \<and>
                w' = emit (EvPing db) w3 \<and>
                d' = d1\<lparr>activeQueriers := AList.update name (dbMeta db) (activeQueriers d1),
                        current := Some (dbMeta db), currentName := name\<rparr>)))"
  using assms
  by (auto simp: SwitchConnection_def
      split: prod.splits result.splits option.splits metaQuerier.splits)

lemma SwitchConnection_uncached_count:
  assumes "Connections (cfg d) name = Some conn" and "map_of (activeQueriers d) name = None"
    and "SwitchConnection E d name P w = (r, d', w')"
    and "SwitchConnection_tunnel E P d conn w = (r0, d1, w1)"
    and "\<And>a b c d. \<not> p (EvPrompt a b c d)"
    and "\<And>db dsn. \<not> p (EvOpenDB db dsn)"
    and "\<And>db n. \<not> p (EvSetMaxOpenConns db n)"
    and "\<And>db n. \<not> p (EvSetConnMaxIdleTime db n)"
    and "\<And>db. \<not> p (EvPing db)"
  shows "count_events p w' = count_events p w1"
proof -
  have pw: "\<And>conn w r w1. SwitchConnection_password E P conn w = (r, w1) \<Longrightarrow>
              count_events p w1 = count_events p w"
    by (erule SwitchConnection_password_count) (rule assms(5))
  have dr: "\<And>conn w r w1. SwitchConnection_driver E conn w = (r, w1) \<Longrightarrow>
              count_events p w1 = count_events p w"
    by (erule SwitchConnection_driver_count) (rule assms(6) assms(7) assms(8))+
  show ?thesis
    using assms(1-4)
    by (auto simp: SwitchConnection_def count_events_emit assms(9)
        split: prod.splits result.splits option.splits metaQuerier.splits
        dest!: pw dr)
qed

section \<open>Failure of SwitchConnection\<close>

text \<open>
  C1 (amended). A call of \<^verbatim>\<open>SwitchConnection\<close> that does not return nil, whether it
  returns an error or panics, leaves the connection cache, the current connection, the
  current name and the configuration as they were. The tunnel cache is as it was, or it
  has gained the tunnel of the connection, established by this call before a later step
  failed. A call for a name that is not cached that returns nil has pinged the new
  handle as its last effect, with a nil answer, and only then registered it and made it
  current.
\<close>

theorem SwitchConnection_failure_frame:
  assumes "SwitchConnection E d name P w = (r, d', w')"
  shows "(r \<noteq> Ok () \<longrightarrow>
            activeQueriers d' = activeQueriers d \<and> current d' = current d \<and>
            currentName d' = currentName d \<and> cfg d' = cfg d \<and>
            (activeTunnels d' = activeTunnels d \<or>
             (\<exists>conn t. Connections (cfg d) name = Some conn \<and> Tunnel conn \<noteq> '''' \<and>
                map_of (activeTunnels d) (Tunnel conn) = None \<and>
                activeTunnels d' = AList.update (Tunnel conn) t (activeTunnels d)))) \<and>
         (r = Ok () \<and> map_of (activeQueriers d) name = None \<longrightarrow>
            (\<exists>conn db w3. Connections (cfg d) name = Some conn \<and>
               PingContext E (now w3) db (ConnectTimeoutSec conn) = None \<and>
               w' = emit (EvPing db) w3 \<and>
               activeQueriers d' = AList.update name (dbMeta db) (activeQueriers d) \<and>
               current d' = Some (dbMeta db) \<and> currentName d' = name))"
proof (cases "Connections (cfg d) name")
  case None
  then show ?thesis
    using assms by (auto simp: SwitchConnection_unconfigured)
next
  case (Some conn)
  show ?thesis
  proof (cases "map_of (activeQueriers d) name")
    case (Some q)
    then show ?thesis
      using assms \<open>Connections (cfg d) name = Some conn\<close>
      by (auto simp: SwitchConnection_cached)
  next
    case None
    from SwitchConnection_uncached [OF \<open>Connections (cfg d) name = Some conn\<close> None assms]
    obtain r0 d1 w1 where t: "SwitchConnection_tunnel E P d conn w = (r0, d1, w1)"
      and alt: "(r \<noteq> Ok () \<and> d' = d1) \<or>
            (r = Ok () \<and>
             (\<exists>conn1 conn2 w2 w3 db.
                r0 = Ok conn1 \<and>
                SwitchConnection_password E P conn1 w1 = (Ok conn2, w2) \<and>
                SwitchConnection_driver E conn2 w2 = (Ok (dbMeta db), w3) \<and>
                PingContext E (now w3) db (ConnectTimeoutSec conn2) = None \<and>
                w' = emit (EvPing db) w3 \<and>
                d' = d1\<lparr>activeQueriers := AList.update name (dbMeta db) (activeQueriers d1),
                        current := Some (dbMeta db), currentName := name\<rparr>))"
      by blast
    note fr = SwitchConnection_tunnel_frame [OF t]
    from alt show ?thesis
    proof
      assume f: "r \<noteq> Ok () \<and> d' = d1"
      have "activeTunnels d1 = activeTunnels d \<or>
            (\<exists>t. Tunnel conn \<noteq> '''' \<and> map_of (activeTunnels d) (Tunnel conn) = None \<and>
                 activeTunnels d1 = AList.update (Tunnel conn) t (activeTunnels d))"
      proof (cases "Tunnel conn = '''' \<or> map_of (activeTunnels d) (Tunnel conn) \<noteq> None")
        case True
        from SwitchConnection_tunnel_reuse [OF True, of E P w] t show ?thesis by auto
      next
        case False
        then show ?thesis
          using SwitchConnection_tunnel_establish [OF t] by auto
      qed
      then show ?thesis
        using f fr \<open>Connections (cfg d) name = Some conn\<close> by auto
    next
      assume s: "r = Ok () \<and>
             (\<exists>conn1 conn2 w2 w3 db.
                r0 = Ok conn1 \<and>
                SwitchConnection_password E P conn1 w1 = (Ok conn2, w2) \<and>
                SwitchConnection_driver E conn2 w2 = (Ok (dbMeta db), w3) \<and>
                PingContext E (now w3) db (ConnectTimeoutSec conn2) = None \<and>
                w' = emit (EvPing db) w3 \<and>
                d' = d1\<lparr>activeQueriers := AList.update name (dbMeta db) (activeQueriers d1),
                        current := Some (dbMeta db), currentName := name\<rparr>)"
      then obtain conn1 conn2 w2 w3 db where
        r0: "r0 = Ok conn1"
        and pw: "SwitchConnection_password E P conn1 w1 = (Ok conn2, w2)"
        and pg: "PingContext E (now w3) db (ConnectTimeoutSec conn2) = None"
        and w': "w' = emit (EvPing db) w3"
        and d': "d' = d1\<lparr>activeQueriers := AList.update name (dbMeta db) (activeQueriers d1),
                        current := Some (dbMeta db), currentName := name\<rparr>"
        by blast
      have "ConnectTimeoutSec conn2 = ConnectTimeoutSec conn"
        using SwitchConnection_tunnel_copy [OF t [unfolded r0]]
          SwitchConnection_password_copy [OF pw] by simp
      then show ?thesis
        using s pg w' d' fr \<open>Connections (cfg d) name = Some conn\<close> by auto
    qed
  qed
qed

theorem SwitchConnection_failure_frame_witness:
  "fst (SwitchConnection env_ok (New cfg_ex) ''ask'' prompt_cancel world0) \<noteq> Ok () \<and>
   activeQueriers (fst (snd (SwitchConnection env_ok (New cfg_ex) ''ask'' prompt_cancel world0))) =
     activeQueriers (New cfg_ex) \<and>
   fst (SwitchConnection env_ok (New cfg_ex) ''ask'' prompt_pw world0) = Ok () \<and>
   map_of (activeQueriers (New cfg_ex)) ''ask'' = None \<and>
   current (fst (snd (SwitchConnection env_ok (New cfg_ex) ''ask'' prompt_pw world0))) \<noteq> None"
proof -
  obtain r d' w' where f: "SwitchConnection env_ok (New cfg_ex) ''ask'' prompt_cancel world0 = (r, d', w')"
    by (cases "SwitchConnection env_ok (New cfg_ex) ''ask'' prompt_cancel world0")
  have rf: "r = Err (ExternalError ''cancelled'')"
    using f
    by (simp add: SwitchConnection_def New_def cfg_ex_def conn_ask_def conn_direct_def
        SwitchConnection_tunnel_def SwitchConnection_password_def env_ok_def prompt_cancel_def
        Let_def)
  obtain r2 d2 w2 where s: "SwitchConnection env_ok (New cfg_ex) ''ask'' prompt_pw world0 = (r2, d2, w2)"
    by (cases "SwitchConnection env_ok (New cfg_ex) ''ask'' prompt_pw world0")
  have rs: "r2 = Ok ()"
    using s
    by (simp add: SwitchConnection_def New_def cfg_ex_def conn_ask_def conn_direct_def
        SwitchConnection_tunnel_def SwitchConnection_password_def env_ok_def prompt_pw_def
        SwitchConnection_driver_def postgresOpen_def Let_def split: prod.splits)
  have u: "map_of (activeQueriers (New cfg_ex)) ''ask'' = None" by (simp add: New_def)
  show ?thesis
    using SwitchConnection_failure_frame [OF f] SwitchConnection_failure_frame [OF s] rf rs u
    by (auto simp: f s)
qed

text \<open>
  A call that establishes the tunnel and then fails at the password prompt returns the
  prompter's error and leaves the tunnel in the tunnel cache, which was empty.
\<close>

theorem SwitchConnection_tunnel_kept_counterexample:
  "fst (SwitchConnection env_ok (New cfg_ex) ''via'' prompt_cancel world0) =
     Err (ExternalError ''cancelled'') \<and>
   activeTunnels (New cfg_ex) = [] \<and>
   map fst (activeTunnels (fst (snd (SwitchConnection env_ok (New cfg_ex) ''via'' prompt_cancel world0)))) =
     [''bastion'']"
  by (simp add: SwitchConnection_def New_def cfg_ex_def conn_via_def conn_direct_def
      tunnel_bastion_def SwitchConnection_tunnel_def SwitchConnection_password_def NewTunnel_def
      NewTunnel_hostKeyCB_def NewTunnel_auth_def ssh_Dial_def PasswordAuth_def
      env_ok_def prompt_cancel_def Let_def)

section \<open>The configuration is never written\<close>

lemma SwitchConnection_cfg:
  "cfg (fst (snd (SwitchConnection E d name P w))) = cfg d"
proof -
  have t: "\<And>conn r d1 w1. SwitchConnection_tunnel E P d conn w = (r, d1, w1) \<Longrightarrow> cfg d1 = cfg d"
    using SwitchConnection_tunnel_frame by blast
  show ?thesis
    by (auto simp: SwitchConnection_def
        split: prod.splits result.splits option.splits metaQuerier.splits dest!: t)
qed

text \<open>
  C9. After every call of \<^verbatim>\<open>SwitchConnection\<close>, whatever its outcome, the
  configuration of the registry is the one before the call, so the stored connection
  spec is unchanged. The first two blocks of the call work on a copy: when the first
  block succeeds for a connection with a tunnel, the host and port of the copy are those
  of the local listener of the tunnel cached under the connection's tunnel name, and
  when the second succeeds, the copy keeps that host and port.
\<close>

theorem SwitchConnection_rewrites_a_copy:
  "cfg (fst (snd (SwitchConnection E d name P w))) = cfg d \<and>
   (\<forall>conn conn1 d1 w1.
      SwitchConnection_tunnel E P d conn w = (Ok conn1, d1, w1) \<and> Tunnel conn \<noteq> '''' \<longrightarrow>
        cfg d1 = cfg d \<and>
        (\<exists>t. map_of (activeTunnels d1) (Tunnel conn) = Some t \<and>
             Host conn1 = laddr_host (localConn t) \<and> Port conn1 = laddr_port (localConn t))) \<and>
   (\<forall>conn1 conn2 w1 w2.
      SwitchConnection_password E P conn1 w1 = (Ok conn2, w2) \<longrightarrow>
        Host conn2 = Host conn1 \<and> Port conn2 = Port conn1)"
proof (intro conjI allI impI)
  show "cfg (fst (snd (SwitchConnection E d name P w))) = cfg d"
    by (rule SwitchConnection_cfg)
next
  fix conn conn1 d1 w1
  assume "SwitchConnection_tunnel E P d conn w = (Ok conn1, d1, w1) \<and> Tunnel conn \<noteq> ''''"
  then show "cfg d1 = cfg d"
    using SwitchConnection_tunnel_frame by blast
next
  fix conn conn1 d1 w1
  assume "SwitchConnection_tunnel E P d conn w = (Ok conn1, d1, w1) \<and> Tunnel conn \<noteq> ''''"
  then show "\<exists>t. map_of (activeTunnels d1) (Tunnel conn) = Some t \<and>
             Host conn1 = laddr_host (localConn t) \<and> Port conn1 = laddr_port (localConn t)"
    using SwitchConnection_tunnel_copy [of E P d conn w conn1 d1 w1] by simp
next
  fix conn1 conn2 w1 w2
  assume "SwitchConnection_password E P conn1 w1 = (Ok conn2, w2)"
  then show "Host conn2 = Host conn1" "Port conn2 = Port conn1"
    using SwitchConnection_password_copy by blast+
qed

theorem SwitchConnection_rewrites_a_copy_witness:
  "map_option Host (result_value (fst
     (SwitchConnection_tunnel env_ok prompt_pw (New cfg_ex) conn_via world0))) =
     Some ''127.0.0.1'' \<and>
   map_option Port (result_value (fst
     (SwitchConnection_tunnel env_ok prompt_pw (New cfg_ex) conn_via world0))) = Some 40000 \<and>
   Tunnel conn_via = ''bastion'' \<and>
   Connections (cfg (fst (snd (SwitchConnection env_ok (New cfg_ex) ''via'' prompt_pw world0))))
     ''via'' = Some conn_via \<and>
   Host conn_via = ''db.example'' \<and> Port conn_via = 5432"
proof -
  obtain r d1 w1 where t: "SwitchConnection_tunnel env_ok prompt_pw (New cfg_ex) conn_via world0 = (r, d1, w1)"
    by (cases "SwitchConnection_tunnel env_ok prompt_pw (New cfg_ex) conn_via world0")
  have "\<exists>conn1. r = Ok conn1 \<and> Host conn1 = ''127.0.0.1'' \<and> Port conn1 = 40000"
    using t
    by (simp add: New_def cfg_ex_def conn_via_def conn_direct_def
      tunnel_bastion_def SwitchConnection_tunnel_def NewTunnel_def
      NewTunnel_hostKeyCB_def NewTunnel_auth_def ssh_Dial_def PasswordAuth_def
      env_ok_def Let_def world0_def now_def emit_def split: prod.splits) auto
  moreover have "Tunnel conn_via = ''bastion''" by (simp add: conn_via_def)
  moreover have "Connections (cfg (New cfg_ex)) ''via'' = Some conn_via"
    by (simp add: New_def cfg_ex_def)
  moreover have "Host conn_via = ''db.example'' \<and> Port conn_via = 5432"
    by (simp add: conn_via_def conn_direct_def)
  ultimately show ?thesis
    using SwitchConnection_rewrites_a_copy [of env_ok "New cfg_ex" "''via''" prompt_pw world0] t
    by (auto simp: result_value_def)
qed

section \<open>A prompter that gives no answer\<close>

lemma passphraseLoop_no_answer:
  assumes "P (now w) (THost tunnel) ''private key is encrypted''
             [''private key passphrase: ''] [False] = Inr []"
  shows "fst (passphraseLoop E P tunnel buf (Suc n) err w) = Panic (IndexOutOfRange 0 0)"
  using assms by (simp add: Let_def)

text \<open>
  C10. Let the connection be configured and not cached, its password empty, the
  variable \<open>PGPASSWORD\<close> unset, and let the first block of the call (the tunnel) succeed.
  If the prompter then returns a nil error with an empty list of answers,
  \<^verbatim>\<open>SwitchConnection\<close> panics with an index out of range and returns no error. The
  same holds for the passphrase prompt of the tunnel's public key callback: with an
  encrypted key and no configured passphrase, such an answer makes the callback panic
  (and with it the call of \<^verbatim>\<open>SwitchConnection\<close> that dials the tunnel).
\<close>

theorem prompter_without_answer_panics:
  "(Connections (cfg d) name = Some conn \<and> map_of (activeQueriers d) name = None \<and>
    SwitchConnection_tunnel E P d conn w = (Ok conn1, d1, w1) \<and>
    Password conn = '''' \<and> Getenv E ''PGPASSWORD'' = '''' \<and>
    P (now w1) '''' '''' [''database password: ''] [False] = Inr [] \<longrightarrow>
      fst (SwitchConnection E d name P w) = Panic (IndexOutOfRange 0 0)) \<and>
   (ParsePrivateKey E buf = Some PassphraseMissingError \<and> PrivateKeyPassphrase tunnel = '''' \<and>
    P (now w) (THost tunnel) ''private key is encrypted''
      [''private key passphrase: ''] [False] = Inr [] \<longrightarrow>
      fst (privateKeySigners E P tunnel buf w) = Panic (IndexOutOfRange 0 0))"
proof (intro conjI impI)
  assume a: "Connections (cfg d) name = Some conn \<and> map_of (activeQueriers d) name = None \<and>
    SwitchConnection_tunnel E P d conn w = (Ok conn1, d1, w1) \<and>
    Password conn = '''' \<and> Getenv E ''PGPASSWORD'' = '''' \<and>
    P (now w1) '''' '''' [''database password: ''] [False] = Inr []"
  then have t: "SwitchConnection_tunnel E P d conn w = (Ok conn1, d1, w1)" by simp
  have "Password conn1 = ''''"
    using SwitchConnection_tunnel_copy [OF t] a by simp
  then have "fst (SwitchConnection_password E P conn1 w1) = Panic (IndexOutOfRange 0 0)"
    using a by (simp add: SwitchConnection_password_def Let_def)
  then show "fst (SwitchConnection E d name P w) = Panic (IndexOutOfRange 0 0)"
    using a by (auto simp: SwitchConnection_def split: prod.splits result.splits)
next
  assume b: "ParsePrivateKey E buf = Some PassphraseMissingError \<and>
    PrivateKeyPassphrase tunnel = '''' \<and>
    P (now w) (THost tunnel) ''private key is encrypted''
      [''private key passphrase: ''] [False] = Inr []"
  then have "fst (passphraseLoop E P tunnel buf (Suc 2) (Some PassphraseMissingError) w) =
      Panic (IndexOutOfRange 0 0)"
    using passphraseLoop_no_answer by blast
  then show "fst (privateKeySigners E P tunnel buf w) = Panic (IndexOutOfRange 0 0)"
    using b
    by (auto simp: privateKeySigners_def promptNumRetries_def numeral_3_eq_3
        split: prod.splits result.splits option.splits)
qed

theorem prompter_without_answer_panics_witness:
  "Connections (cfg (New cfg_ex)) ''ask'' = Some conn_ask \<and>
   Password conn_ask = '''' \<and> Getenv env_ok ''PGPASSWORD'' = '''' \<and>
   prompt_none 0 '''' '''' [''database password: ''] [False] = Inr [] \<and>
   fst (SwitchConnection env_ok (New cfg_ex) ''ask'' prompt_none world0) =
     Panic (IndexOutOfRange 0 0) \<and>
   ParsePrivateKey env_ok [] = Some PassphraseMissingError \<and>
   PrivateKeyPassphrase tunnel_key = '''' \<and>
   fst (privateKeySigners env_ok prompt_none tunnel_key [] world0) = Panic (IndexOutOfRange 0 0) \<and>
   fst (SwitchConnection env_ok (New cfg_key) ''via'' prompt_none world0) =
     Panic (IndexOutOfRange 0 0)"
proof -
  have tp: "fst (SwitchConnection env_ok (New cfg_key) ''via'' prompt_none world0) =
      Panic (IndexOutOfRange 0 0)"
    by (simp add: SwitchConnection_def SwitchConnection_tunnel_def New_def cfg_key_def cfg_ex_def
        conn_via_def conn_direct_def tunnel_key_def tunnel_bastion_def NewTunnel_def
        NewTunnel_hostKeyCB_def NewTunnel_auth_def ssh_Dial_def PasswordAuth_def
        PublicKeyAuth_def privateKeySigners_def promptNumRetries_def numeral_3_eq_3
        prompt_none_def env_ok_def Let_def)
  have c: "Connections (cfg (New cfg_ex)) ''ask'' = Some conn_ask"
    by (simp add: New_def cfg_ex_def)
  have u: "map_of (activeQueriers (New cfg_ex)) ''ask'' = None" by (simp add: New_def)
  have t: "SwitchConnection_tunnel env_ok prompt_none (New cfg_ex) conn_ask world0 =
             (Ok conn_ask, New cfg_ex, world0)"
    by (simp add: SwitchConnection_tunnel_def conn_ask_def conn_direct_def)
  have p: "Password conn_ask = ''''" by (simp add: conn_ask_def)
  have g: "Getenv env_ok ''PGPASSWORD'' = ''''" by (simp add: env_ok_def)
  have a: "prompt_none (now world0) '''' '''' [''database password: ''] [False] = Inr []"
    by (simp add: prompt_none_def)
  have n: "now world0 = 0" by (simp add: now_def world0_def)
  have k: "ParsePrivateKey env_ok [] = Some PassphraseMissingError" by (simp add: env_ok_def)
  have pp: "PrivateKeyPassphrase tunnel_key = ''''"
    by (simp add: tunnel_key_def tunnel_bastion_def)
  have b: "prompt_none (now world0) (THost tunnel_key) ''private key is encrypted''
      [''private key passphrase: ''] [False] = Inr []"
    by (simp add: prompt_none_def)
  show ?thesis
    using prompter_without_answer_panics [where d = "New cfg_ex" and name = "''ask''"
        and conn = conn_ask and E = env_ok and P = prompt_none and w = world0
        and ?conn1.0 = conn_ask and ?d1.0 = "New cfg_ex" and ?w1.0 = world0 and buf = "[]"
        and tunnel = tunnel_key]
      c u t p g a n k pp b tp
    by simp
qed

section \<open>What a call keeps\<close>

lemma SwitchConnection_tunnel_tunnels:
  assumes "SwitchConnection_tunnel E P d conn w = (r, d1, w1)"
  shows "activeTunnels d1 = activeTunnels d \<or>
         (\<exists>t. Tunnel conn \<noteq> '''' \<and> map_of (activeTunnels d) (Tunnel conn) = None \<and>
              activeTunnels d1 = AList.update (Tunnel conn) t (activeTunnels d))"
proof (cases "Tunnel conn = '''' \<or> map_of (activeTunnels d) (Tunnel conn) \<noteq> None")
  case True
  from SwitchConnection_tunnel_reuse [OF True, of E P w] assms show ?thesis by auto
next
  case False
  then show ?thesis
    using SwitchConnection_tunnel_establish [OF assms] by auto
qed

lemma SwitchConnection_keeps:
  assumes "SwitchConnection E d name P w = (r, d', w')"
  shows "cfg d' = cfg d"
    and "map_of (activeQueriers d) n = Some q \<Longrightarrow> map_of (activeQueriers d') n = Some q"
    and "map_of (activeTunnels d) tn = Some t \<Longrightarrow> map_of (activeTunnels d') tn = Some t"
proof -
  have all: "cfg d' = cfg d \<and>
     (map_of (activeQueriers d) n = Some q \<longrightarrow> map_of (activeQueriers d') n = Some q) \<and>
     (map_of (activeTunnels d) tn = Some t \<longrightarrow> map_of (activeTunnels d') tn = Some t)"
  proof (cases "Connections (cfg d) name")
    case None
    then show ?thesis using assms by (auto simp: SwitchConnection_unconfigured)
  next
    case (Some conn)
    show ?thesis
    proof (cases "map_of (activeQueriers d) name")
      case (Some x)
      then show ?thesis
        using assms \<open>Connections (cfg d) name = Some conn\<close>
        by (auto simp: SwitchConnection_cached)
    next
      case None
      from SwitchConnection_uncached [OF \<open>Connections (cfg d) name = Some conn\<close> None assms]
      obtain r0 d1 w1 where st: "SwitchConnection_tunnel E P d conn w = (r0, d1, w1)"
        and alt: "d' = d1 \<or>
          (\<exists>db. d' = d1\<lparr>activeQueriers := AList.update name (dbMeta db) (activeQueriers d1),
                        current := Some (dbMeta db), currentName := name\<rparr>)"
        by blast
      note fr = SwitchConnection_tunnel_frame [OF st]
      have tun: "map_of (activeTunnels d) tn = Some t \<longrightarrow> map_of (activeTunnels d1) tn = Some t"
        using SwitchConnection_tunnel_tunnels [OF st] by (auto simp: update_conv')
      from alt show ?thesis
        using fr tun None by (auto simp: update_conv')
    qed
  qed
  from all show "cfg d' = cfg d" by simp
  from all show "map_of (activeQueriers d) n = Some q \<Longrightarrow> map_of (activeQueriers d') n = Some q"
    by simp
  from all show "map_of (activeTunnels d) tn = Some t \<Longrightarrow> map_of (activeTunnels d') tn = Some t"
    by simp
qed

lemma run_keeps:
  assumes "run E P calls (d, w) = (d', w')"
  shows "cfg d' = cfg d \<and>
     (map_of (activeQueriers d) n = Some q \<longrightarrow> map_of (activeQueriers d') n = Some q) \<and>
     (map_of (activeTunnels d) tn = Some t \<longrightarrow> map_of (activeTunnels d') tn = Some t)"
  using assms
proof (induction calls arbitrary: d w)
  case Nil
  then show ?case by simp
next
  case (Cons c calls)
  show ?case
  proof (cases c)
    case (CallSwitch name)
    obtain r d1 w1 where s: "SwitchConnection E d name P w = (r, d1, w1)"
      by (cases "SwitchConnection E d name P w")
    note k = SwitchConnection_keeps [OF s]
    show ?thesis
    proof (cases "\<exists>pn. r = Panic pn")
      case True
      then show ?thesis
        using Cons.prems CallSwitch s k by auto
    next
      case False
      then have "run E P calls (d1, w1) = (d', w')"
        using Cons.prems CallSwitch s by (cases r) auto
      from Cons.IH [OF this] show ?thesis using k by auto
    qed
  next
    case CallClose
    then show ?thesis
      using Cons.prems Cons.IH by (auto split: prod.splits)
  qed
qed

section \<open>Switching again\<close>

text \<open>
  C2. Let a call of \<^verbatim>\<open>SwitchConnection\<close> for a name return nil. Then the name is
  cached and current. After any further calls of \<^verbatim>\<open>SwitchConnection\<close> and \<^verbatim>\<open>Close\<close>,
  in any world and with any prompter, a call for the name returns nil, makes the handle
  cached by the first call current, and changes nothing else: the caches, the
  configuration and the world with its trace are the same, so nothing is dialed and
  nothing is asked. If the name was not cached before the first call, that call has
  opened one database handle and pinged once, and a second call right after it leaves
  the registry and the world as they are.
\<close>

theorem SwitchConnection_again:
  assumes "SwitchConnection E d name P w = (Ok (), d1, w1)"
  shows "(\<exists>q. map_of (activeQueriers d1) name = Some q \<and> current d1 = Some q \<and>
              currentName d1 = name \<and>
              (\<forall>calls E1 P1 d2 w2 E2 P2.
                 run E1 P1 calls (d1, w1) = (d2, w2) \<longrightarrow>
                 SwitchConnection E2 d2 name P2 w2 =
                   (Ok (), d2\<lparr>current := Some q, currentName := name\<rparr>, w2))) \<and>
         (map_of (activeQueriers d) name = None \<longrightarrow>
            count_events is_OpenDB w1 = Suc (count_events is_OpenDB w) \<and>
            count_events is_Ping w1 = Suc (count_events is_Ping w) \<and>
            SwitchConnection E d1 name P w1 = (Ok (), d1, w1))"
proof -
  obtain conn where conn: "Connections (cfg d) name = Some conn"
    using assms by (cases "Connections (cfg d) name") (auto simp: SwitchConnection_unconfigured)
  have cfg1: "cfg d1 = cfg d" using SwitchConnection_keeps(1) [OF assms] .
  have first: "\<exists>q. map_of (activeQueriers d1) name = Some q \<and> current d1 = Some q \<and>
              currentName d1 = name"
  proof (cases "map_of (activeQueriers d) name")
    case (Some q)
    then show ?thesis using assms conn by (auto simp: SwitchConnection_cached)
  next
    case None
    from SwitchConnection_uncached [OF conn None assms] show ?thesis
      by (auto simp: update_conv')
  qed
  then obtain q where q: "map_of (activeQueriers d1) name = Some q" "current d1 = Some q"
    "currentName d1 = name" by blast
  have later: "\<forall>calls E1 P1 d2 w2 E2 P2.
                 run E1 P1 calls (d1, w1) = (d2, w2) \<longrightarrow>
                 SwitchConnection E2 d2 name P2 w2 =
                   (Ok (), d2\<lparr>current := Some q, currentName := name\<rparr>, w2)"
  proof (intro allI impI)
    fix calls E1 P1 d2 w2 E2 P2
    assume r: "run E1 P1 calls (d1, w1) = (d2, w2)"
    from run_keeps [OF r, of name q] q cfg1 conn
    have "Connections (cfg d2) name = Some conn" "map_of (activeQueriers d2) name = Some q"
      by simp_all
    then show "SwitchConnection E2 d2 name P2 w2 =
                   (Ok (), d2\<lparr>current := Some q, currentName := name\<rparr>, w2)"
      by (rule SwitchConnection_cached)
  qed
  have once: "map_of (activeQueriers d) name = None \<longrightarrow>
            count_events is_OpenDB w1 = Suc (count_events is_OpenDB w) \<and>
            count_events is_Ping w1 = Suc (count_events is_Ping w) \<and>
            SwitchConnection E d1 name P w1 = (Ok (), d1, w1)"
  proof
    assume None: "map_of (activeQueriers d) name = None"
    from SwitchConnection_uncached [OF conn None assms]
    obtain r0 d0 w0 conn1 conn2 w2 w3 db where
      st: "SwitchConnection_tunnel E P d conn w = (r0, d0, w0)"
      and pw: "SwitchConnection_password E P conn1 w0 = (Ok conn2, w2)"
      and dr: "SwitchConnection_driver E conn2 w2 = (Ok (dbMeta db), w3)"
      and w1: "w1 = emit (EvPing db) w3"
      by auto
    have c0: "count_events is_OpenDB w0 = count_events is_OpenDB w \<and>
              count_events is_Ping w0 = count_events is_Ping w"
      using SwitchConnection_tunnel_count_other [OF st, of is_OpenDB]
        SwitchConnection_tunnel_count_other [OF st, of is_Ping] by simp
    have c2: "count_events is_OpenDB w2 = count_events is_OpenDB w0 \<and>
              count_events is_Ping w2 = count_events is_Ping w0"
      using SwitchConnection_password_count [OF pw, of is_OpenDB]
        SwitchConnection_password_count [OF pw, of is_Ping] by simp
    have c3: "count_events is_OpenDB w3 = Suc (count_events is_OpenDB w2) \<and>
              count_events is_Ping w3 = count_events is_Ping w2"
      using SwitchConnection_driver_count_open [OF dr] by simp
    have again: "SwitchConnection E d1 name P w1 = (Ok (), d1\<lparr>current := Some q, currentName := name\<rparr>, w1)"
      using conn cfg1 q(1) by (simp add: SwitchConnection_cached)
    have "d1\<lparr>current := Some q, currentName := name\<rparr> = d1"
      using q by simp
    then show "count_events is_OpenDB w1 = Suc (count_events is_OpenDB w) \<and>
            count_events is_Ping w1 = Suc (count_events is_Ping w) \<and>
            SwitchConnection E d1 name P w1 = (Ok (), d1, w1)"
      using c0 c2 c3 w1 again by (simp add: count_events_emit)
  qed
  from q later once show ?thesis by blast
qed


theorem SwitchConnection_again_witness:
  "fst (SwitchConnection env_ok (New cfg_ex) ''direct'' prompt_pw world0) = Ok () \<and>
   map_of (activeQueriers (New cfg_ex)) ''direct'' = None \<and>
   count_events is_Ping (snd (run env_ok prompt_pw [CallSwitch ''direct'', CallSwitch ''direct'']
     (New cfg_ex, world0))) = 1 \<and>
   count_events is_OpenDB (snd (run env_ok prompt_pw [CallSwitch ''direct'', CallSwitch ''direct'']
     (New cfg_ex, world0))) = 1"
proof -
  obtain r d1 w1 where s: "SwitchConnection env_ok (New cfg_ex) ''direct'' prompt_pw world0 = (r, d1, w1)"
    by (cases "SwitchConnection env_ok (New cfg_ex) ''direct'' prompt_pw world0")
  have r: "r = Ok ()"
    using s
    by (simp add: SwitchConnection_def New_def cfg_ex_def conn_direct_def
        SwitchConnection_tunnel_def SwitchConnection_password_def env_ok_def
        SwitchConnection_driver_def postgresOpen_def Let_def split: prod.splits)
  have u: "map_of (activeQueriers (New cfg_ex)) ''direct'' = None" by (simp add: New_def)
  have z: "count_events is_Ping world0 = 0" "count_events is_OpenDB world0 = 0"
    by (simp_all add: count_events_def world0_def)
  show ?thesis
    using SwitchConnection_again [OF s [unfolded r]] u z
    by (simp add: s r)
qed

section \<open>One tunnel for each tunnel name\<close>

lemma closeAll_count:
  assumes "\<And>c. \<not> p (EvCloseConn c)"
  shows "count_events p (closeAll E cs w) = count_events p w"
  by (induction cs arbitrary: w) (simp_all add: count_events_emit assms)

lemma closeQueriers_count:
  assumes "\<And>db. \<not> p (EvCloseDB db)"
  shows "count_events p (closeQueriers E qs w) = count_events p w"
proof (induction qs arbitrary: w)
  case Nil
  then show ?case by simp
next
  case (Cons nq qs)
  obtain name db where nq: "nq = (name, dbMeta db)"
    by (cases nq; cases "snd nq") auto
  show ?case by (simp add: nq Cons.IH count_events_emit assms)
qed

lemma closeTunnels_count:
  assumes "\<And>c. \<not> p (EvCloseConn c)" and "\<And>l. \<not> p (EvCloseListener l)"
  shows "count_events p (closeTunnels E ts w) = count_events p w"
proof (induction ts arbitrary: w)
  case Nil
  then show ?case by simp
next
  case (Cons nt ts)
  obtain name t where nt: "nt = (name, t)" by (cases nt)
  show ?case
    by (simp add: nt Cons.IH Tunnel_Close_def Let_def count_events_emit closeAll_count assms)
qed

lemma Close_count:
  assumes "\<And>db. \<not> p (EvCloseDB db)" and "\<And>c. \<not> p (EvCloseConn c)"
    and "\<And>l. \<not> p (EvCloseListener l)"
  shows "count_events p (snd (Close E d w)) = count_events p w"
  by (simp add: Close_def closeTunnels_count closeQueriers_count assms)

text \<open>A call for a connection whose tunnel is cached, or that has none, adds no tunnel event.\<close>

lemma SwitchConnection_tunnel_cached_count:
  assumes s: "SwitchConnection E d name P w = (r, d', w')"
    and on: "on_tunnel (cfg d) tn (CallSwitch name)"
    and t: "map_of (activeTunnels d) tn = Some t"
    and p: "\<And>ev. p ev \<Longrightarrow> tunnel_event ev"
  shows "count_events p w' = count_events p w"
proof (cases "Connections (cfg d) name")
  case None
  then show ?thesis using s by (auto simp: SwitchConnection_unconfigured)
next
  case (Some conn)
  show ?thesis
  proof (cases "map_of (activeQueriers d) name")
    case (Some q)
    then show ?thesis
      using s \<open>Connections (cfg d) name = Some conn\<close> by (auto simp: SwitchConnection_cached)
  next
    case None
    have "Tunnel conn = '''' \<or> map_of (activeTunnels d) (Tunnel conn) \<noteq> None"
      using on t \<open>Connections (cfg d) name = Some conn\<close> by auto
    from SwitchConnection_tunnel_reuse [OF this, of E P w]
    obtain conn1 where st: "SwitchConnection_tunnel E P d conn w = (Ok conn1, d, w)" by blast
    have np: "\<And>a b c d. \<not> p (EvPrompt a b c d)" using p by fastforce
    have no: "\<And>db dsn. \<not> p (EvOpenDB db dsn)" using p by fastforce
    have nm: "\<And>db n. \<not> p (EvSetMaxOpenConns db n)" using p by fastforce
    have ni: "\<And>db n. \<not> p (EvSetConnMaxIdleTime db n)" using p by fastforce
    have ng: "\<And>db. \<not> p (EvPing db)" using p by fastforce
    show ?thesis
      by (rule SwitchConnection_uncached_count
          [OF \<open>Connections (cfg d) name = Some conn\<close> None s st]) (rule np no nm ni ng)+
  qed
qed

lemma run_tunnel_cached:
  assumes "run E P calls (d, w) = (d', w')"
    and "\<forall>c \<in> set calls. on_tunnel (cfg d) tn c"
    and "map_of (activeTunnels d) tn = Some t"
    and p: "\<And>ev. p ev \<Longrightarrow> tunnel_event ev"
  shows "map_of (activeTunnels d') tn = Some t \<and> count_events p w' = count_events p w"
  using assms(1,2,3)
proof (induction calls arbitrary: d w)
  case Nil
  then show ?case by simp
next
  case (Cons c calls)
  show ?case
  proof (cases c)
    case (CallSwitch name)
    obtain r d1 w1 where s: "SwitchConnection E d name P w = (r, d1, w1)"
      by (cases "SwitchConnection E d name P w")
    have on: "on_tunnel (cfg d) tn (CallSwitch name)" using Cons.prems(2) CallSwitch by simp
    have c1: "count_events p w1 = count_events p w"
      using SwitchConnection_tunnel_cached_count [OF s on Cons.prems(3)] p by blast
    have t1: "map_of (activeTunnels d1) tn = Some t"
      using SwitchConnection_keeps(3) [OF s Cons.prems(3)] .
    have g1: "cfg d1 = cfg d" using SwitchConnection_keeps(1) [OF s] .
    show ?thesis
    proof (cases "\<exists>pn. r = Panic pn")
      case True
      then show ?thesis using Cons.prems(1) CallSwitch s c1 t1 by auto
    next
      case False
      then have "run E P calls (d1, w1) = (d', w')"
        using Cons.prems(1) CallSwitch s by (cases r) auto
      from Cons.IH [OF this] show ?thesis
        using Cons.prems(2) g1 t1 c1 by simp
    qed
  next
    case CallClose
    obtain r w1 where cl: "Close E d w = (r, w1)" by (cases "Close E d w")
    have c1: "count_events p w1 = count_events p w"
      using Close_count [of p E d w] p cl by fastforce
    have "run E P calls (d, w1) = (d', w')"
      using Cons.prems(1) CallClose cl by simp
    from Cons.IH [OF this] show ?thesis
      using Cons.prems(2,3) c1 by simp
  qed
qed

text \<open>A call for a connection whose tunnel is not cached makes at most one session, and
  makes one exactly when it caches the tunnel.\<close>

lemma SwitchConnection_tunnel_uncached_count:
  assumes s: "SwitchConnection E d name P w = (r, d', w')"
    and on: "on_tunnel (cfg d) tn (CallSwitch name)"
    and tn: "tn \<noteq> ''''"
    and t: "map_of (activeTunnels d) tn = None"
  shows "(map_of (activeTunnels d') tn = None \<and>
            count_events is_SshClient w' = count_events is_SshClient w) \<or>
         (map_of (activeTunnels d') tn \<noteq> None \<and>
            count_events is_SshClient w' = Suc (count_events is_SshClient w))"
proof (cases "Connections (cfg d) name")
  case None
  then show ?thesis using s t by (auto simp: SwitchConnection_unconfigured)
next
  case (Some conn)
  show ?thesis
  proof (cases "map_of (activeQueriers d) name")
    case (Some q)
    then show ?thesis
      using s t \<open>Connections (cfg d) name = Some conn\<close> by (auto simp: SwitchConnection_cached)
  next
    case None
    from SwitchConnection_uncached [OF \<open>Connections (cfg d) name = Some conn\<close> None s]
    obtain r0 d1 w1 where st: "SwitchConnection_tunnel E P d conn w = (r0, d1, w1)"
      and alt: "d' = d1 \<or>
          (\<exists>db. d' = d1\<lparr>activeQueriers := AList.update name (dbMeta db) (activeQueriers d1),
                        current := Some (dbMeta db), currentName := name\<rparr>)"
      by blast
    have tun: "activeTunnels d' = activeTunnels d1" using alt by auto
    have cnt: "count_events is_SshClient w' = count_events is_SshClient w1"
      by (rule SwitchConnection_uncached_count
          [OF \<open>Connections (cfg d) name = Some conn\<close> None s st]) simp_all
    show ?thesis
    proof (cases "Tunnel conn = ''''")
      case True
      from SwitchConnection_tunnel_reuse [of conn d E P w] True st
      have "d1 = d" "w1 = w" by auto
      then show ?thesis using tun cnt t by simp
    next
      case False
      then have tc: "Tunnel conn = tn"
        using on \<open>Connections (cfg d) name = Some conn\<close> by simp
      from SwitchConnection_tunnel_establish [OF st False] t tc
      show ?thesis using tun cnt by (auto simp: update_conv')
    qed
  qed
qed

lemma run_tunnel_uncached:
  assumes "run E P calls (d, w) = (d', w')"
    and "\<forall>c \<in> set calls. on_tunnel (cfg d) tn c"
    and "tn \<noteq> ''''"
  shows "count_events is_SshClient w' \<le> Suc (count_events is_SshClient w)"
  using assms(1,2)
proof (induction calls arbitrary: d w)
  case Nil
  then show ?case by simp
next
  case (Cons c calls)
  have sc: "\<And>ev. is_SshClient ev \<Longrightarrow> tunnel_event ev"
    subgoal for ev by (cases ev) simp_all
    done
  show ?case
  proof (cases c)
    case (CallSwitch name)
    obtain r d1 w1 where s: "SwitchConnection E d name P w = (r, d1, w1)"
      by (cases "SwitchConnection E d name P w")
    have on: "on_tunnel (cfg d) tn (CallSwitch name)" using Cons.prems(2) CallSwitch by simp
    have g1: "cfg d1 = cfg d" using SwitchConnection_keeps(1) [OF s] .
    have step: "(map_of (activeTunnels d1) tn = None \<and>
            count_events is_SshClient w1 = count_events is_SshClient w) \<or>
         (map_of (activeTunnels d1) tn \<noteq> None \<and>
            count_events is_SshClient w1 \<le> Suc (count_events is_SshClient w))"
    proof (cases "map_of (activeTunnels d) tn")
      case None
      from SwitchConnection_tunnel_uncached_count [OF s on assms(3) None] show ?thesis by auto
    next
      case (Some t)
      from SwitchConnection_tunnel_cached_count [OF s on Some, of is_SshClient] sc
      have "count_events is_SshClient w1 = count_events is_SshClient w" by blast
      moreover have "map_of (activeTunnels d1) tn = Some t"
        using SwitchConnection_keeps(3) [OF s Some] .
      ultimately show ?thesis by simp
    qed
    show ?thesis
    proof (cases "\<exists>pn. r = Panic pn")
      case True
      then show ?thesis using Cons.prems(1) CallSwitch s step by auto
    next
      case False
      then have rest: "run E P calls (d1, w1) = (d', w')"
        using Cons.prems(1) CallSwitch s by (cases r) auto
      have on': "\<forall>c \<in> set calls. on_tunnel (cfg d1) tn c" using Cons.prems(2) g1 by simp
      show ?thesis
      proof (cases "map_of (activeTunnels d1) tn")
        case None
        then have "count_events is_SshClient w1 = count_events is_SshClient w"
          using step by simp
        then show ?thesis using Cons.IH [OF rest on'] by simp
      next
        case (Some t)
        from run_tunnel_cached [OF rest on' Some, of is_SshClient] sc
        have "count_events is_SshClient w' = count_events is_SshClient w1" by blast
        then show ?thesis using step Some by simp
      qed
    qed
  next
    case CallClose
    obtain r w1 where cl: "Close E d w = (r, w1)" by (cases "Close E d w")
    have c1: "count_events is_SshClient w1 = count_events is_SshClient w"
      using Close_count [of is_SshClient E d w] cl by simp
    have "run E P calls (d, w1) = (d', w')"
      using Cons.prems(1) CallClose cl by simp
    from Cons.IH [OF this] show ?thesis
      using Cons.prems(2) c1 by simp
  qed
qed

text \<open>
  C3 (amended). Take a tunnel name and any sequence of \<^verbatim>\<open>SwitchConnection\<close> calls for
  connections that reference this tunnel, or no tunnel, and \<^verbatim>\<open>Close\<close> calls. Over the
  whole sequence at most one transport session is created. From a registry that has
  the tunnel cached, the sequence opens no listener, dials no SSH server and creates no
  session, and the cache maps the name to the same tunnel (the same session and the
  same listener) at the end.
\<close>

theorem tunnel_established_once:
  assumes "tn \<noteq> ''''"
    and "\<forall>c \<in> set calls. on_tunnel (cfg d) tn c"
    and "run E P calls (d, w) = (d', w')"
  shows "count_events is_SshClient w' \<le> Suc (count_events is_SshClient w) \<and>
         (\<forall>t. map_of (activeTunnels d) tn = Some t \<longrightarrow>
            map_of (activeTunnels d') tn = Some t \<and>
            count_events tunnel_event w' = count_events tunnel_event w)"
proof (intro conjI allI impI)
  show "count_events is_SshClient w' \<le> Suc (count_events is_SshClient w)"
    using assms(3,2,1) by (rule run_tunnel_uncached)
next
  fix t assume t: "map_of (activeTunnels d) tn = Some t"
  from run_tunnel_cached [OF assms(3,2) t, of tunnel_event]
  show "map_of (activeTunnels d') tn = Some t"
    and "count_events tunnel_event w' = count_events tunnel_event w"
    by simp_all
qed

theorem tunnel_established_once_witness:
  "on_tunnel (cfg (New cfg_ex)) ''bastion'' (CallSwitch ''via'') \<and>
   on_tunnel (cfg (New cfg_ex)) ''bastion'' (CallSwitch ''via2'') \<and>
   on_tunnel (cfg (New cfg_ex)) ''bastion'' CallClose \<and>
   count_events is_SshClient (snd (run env_ok prompt_pw
     [CallSwitch ''via'', CallSwitch ''via2'', CallClose, CallSwitch ''via'']
     (New cfg_ex, world0))) \<le> 1 \<and>
   map_of (activeTunnels dbman_live) ''bastion'' = Some tunnel_live \<and>
   map_of (activeTunnels (fst (run env_ok prompt_pw
     [CallSwitch ''via'', CallSwitch ''via2'', CallClose, CallSwitch ''via'']
     (dbman_live, world_live)))) ''bastion'' = Some tunnel_live"
proof -
  let ?calls = "[CallSwitch ''via'', CallSwitch ''via2'', CallClose, CallSwitch ''via'']"
  have tn: "''bastion'' \<noteq> ''''" by simp
  have on: "\<forall>c \<in> set ?calls. on_tunnel (cfg (New cfg_ex)) ''bastion'' c"
    by (simp add: New_def cfg_ex_def conn_via_def conn_via2_def conn_direct_def)
  have on2: "\<forall>c \<in> set ?calls. on_tunnel (cfg dbman_live) ''bastion'' c"
    by (simp add: dbman_live_def cfg_ex_def conn_via_def conn_via2_def conn_direct_def)
  obtain d1 w1 where r1: "run env_ok prompt_pw ?calls (New cfg_ex, world0) = (d1, w1)"
    by (cases "run env_ok prompt_pw ?calls (New cfg_ex, world0)")
  obtain d2 w2 where r2: "run env_ok prompt_pw ?calls (dbman_live, world_live) = (d2, w2)"
    by (cases "run env_ok prompt_pw ?calls (dbman_live, world_live)")
  have z: "count_events is_SshClient world0 = 0" by (simp add: count_events_def world0_def)
  have c: "map_of (activeTunnels dbman_live) ''bastion'' = Some tunnel_live"
    by (simp add: dbman_live_def)
  have a: "count_events is_SshClient w1 \<le> 1"
    using tunnel_established_once [OF tn on r1] z by simp
  have b: "map_of (activeTunnels d2) ''bastion'' = Some tunnel_live"
    using tunnel_established_once [OF tn on2 r2] c by simp
  show ?thesis
    unfolding r1 r2 using on a b c by (simp del: run.simps)
qed

text \<open>
  When the SSH server refuses the first handshake, two switches to one connection dial
  the tunnel twice and open two listeners.
\<close>

theorem tunnel_dialed_twice_counterexample:
  "on_tunnel (cfg (New cfg_ex)) ''bastion'' (CallSwitch ''via'') \<and>
   count_events is_SshDial (snd (run env_flaky prompt_pw [CallSwitch ''via'', CallSwitch ''via'']
     (New cfg_ex, world0))) = 2 \<and>
   count_events is_Listen (snd (run env_flaky prompt_pw [CallSwitch ''via'', CallSwitch ''via'']
     (New cfg_ex, world0))) = 2"
proof -
  let ?w1 = "\<lparr>trace = [EvListen 0, EvSshDial ''bastion.example:22''], connections = (\<lambda>l. [])\<rparr>"
  have i: "Itoa 22 = ''22''" by code_simp
  have c: "Connections cfg_ex ''via'' = Some conn_via" by (simp add: cfg_ex_def)
  have t: "Tunnels cfg_ex ''bastion'' = Some tunnel_bastion" by (simp add: cfg_ex_def)
  have n1: "NewTunnel env_flaky prompt_pw tunnel_bastion (Host conn_via) (Port conn_via) world0 =
      (Err (ErrConnectTunnel (ExternalError ''refused'')), ?w1)"
    by (simp add: NewTunnel_def NewTunnel_hostKeyCB_def NewTunnel_auth_def ssh_Dial_def
        PasswordAuth_def tunnel_bastion_def env_flaky_def env_ok_def Let_def world0_def now_def
        emit_def i)
  have s1: "SwitchConnection env_flaky (New cfg_ex) ''via'' prompt_pw world0 =
      (Err (ErrEstablishTunnel (ErrConnectTunnel (ExternalError ''refused''))), New cfg_ex, ?w1)"
    using c t n1
    by (simp add: SwitchConnection_def SwitchConnection_tunnel_def New_def conn_via_def
        conn_direct_def)
  obtain r2 d2 w2 where s2: "SwitchConnection env_flaky (New cfg_ex) ''via'' prompt_pw ?w1 = (r2, d2, w2)"
    by (cases "SwitchConnection env_flaky (New cfg_ex) ''via'' prompt_pw ?w1")
  have cnt: "count_events is_SshDial w2 = 2 \<and> count_events is_Listen w2 = 2"
    using s2 c t
    by (simp add: SwitchConnection_def SwitchConnection_tunnel_def New_def conn_via_def
        conn_direct_def NewTunnel_def NewTunnel_hostKeyCB_def NewTunnel_auth_def ssh_Dial_def
        PasswordAuth_def tunnel_bastion_def env_flaky_def env_ok_def Let_def now_def
        emit_def SwitchConnection_password_def prompt_pw_def SwitchConnection_driver_def
        postgresOpen_def count_events_def split: prod.splits)
      auto
  have on: "\<forall>c \<in> set [CallSwitch ''via'', CallSwitch ''via''].
      on_tunnel (cfg (New cfg_ex)) ''bastion'' c"
    by (simp add: New_def cfg_ex_def conn_via_def conn_direct_def)
  have "run env_flaky prompt_pw [CallSwitch ''via'', CallSwitch ''via''] (New cfg_ex, world0) =
      (d2, w2)"
    by (cases r2) (simp_all add: s1 s2)
  then show ?thesis
    using on cnt by (simp del: run.simps)
qed


end
